theory Spec2Isabelle
  imports Main "HOL-Library.Word"
begin

section \<open>The editing commands of \<^verbatim>\<open>src/components/Editor.tsx\<close>\<close>

text \<open>
  The editor binds three keys of a \<^verbatim>\<open>textarea\<close>: Tab (with or without shift), Enter
  and the closing brace. Each handler reads the control's \<^verbatim>\<open>value\<close>,
  \<^verbatim>\<open>selectionStart\<close> and \<^verbatim>\<open>selectionEnd\<close>, and changes
  them through two primitives of the platform, \<^verbatim>\<open>setSelectionRange\<close> and
  \<^verbatim>\<open>document.execCommand("insertText", false, text)\<close>. The control is modelled as a
  record that every handler takes and returns; the buffer and the selection of the
  specification are its fields before the call, the edit result its fields afterwards.
\<close>

subsection \<open>Strings\<close>

text \<open>
  A JavaScript string is a sequence of UTF-16 code units; \<^verbatim>\<open>length\<close>,
  \<^verbatim>\<open>slice\<close>, \<^verbatim>\<open>lastIndexOf\<close> and the selection offsets all count code units.
\<close>

type_synonym code_unit = "16 word"
type_synonym js_string = "code_unit list"

text \<open>Literals of the source are written as \<open>js ''...''\<close>.\<close>

definition js :: "string \<Rightarrow> js_string" where
  "js s = map of_char s"

definition LF :: code_unit where
  "LF = 0x0A"

definition SP :: code_unit where
  "SP = 0x20"

text \<open>
  The class \<^verbatim>\<open>\s\<close> of a regular expression (without the \<^verbatim>\<open>u\<close> flag): the
  white space and line terminator code points of ECMAScript, namely TAB, LF, VT, FF,
  CR, SPACE, NBSP, U+1680, U+2000 to U+200A, U+2028, U+2029, U+202F, U+205F, U+3000 and
  U+FEFF.
\<close>

definition is_whitespace :: "code_unit \<Rightarrow> bool" where
  "is_whitespace c \<longleftrightarrow>
     c = 0x09 \<or> c = 0x0A \<or> c = 0x0B \<or> c = 0x0C \<or> c = 0x0D \<or> c = 0x20 \<or> c = 0xA0 \<or>
     c = 0x1680 \<or> (0x2000 \<le> c \<and> c \<le> 0x200A) \<or> c = 0x2028 \<or> c = 0x2029 \<or>
     c = 0x202F \<or> c = 0x205F \<or> c = 0x3000 \<or> c = 0xFEFF"

text \<open>
  \<^verbatim>\<open>String.prototype.slice(start, end)\<close>: a negative argument counts from the end,
  both are clamped to the string, and an empty string results when the bounds cross.
  \<open>slice_from\<close> is the call with one argument.
\<close>

definition slice :: "js_string \<Rightarrow> int \<Rightarrow> int \<Rightarrow> js_string" where
  "slice s start fin =
     (let len = int (length s);
          lo = (if start < 0 then max (len + start) 0 else min start len);
          hi = (if fin < 0 then max (len + fin) 0 else min fin len)
      in take (nat (hi - lo)) (drop (nat lo) s))"

definition slice_from :: "js_string \<Rightarrow> int \<Rightarrow> js_string" where
  "slice_from s start = slice s start (int (length s))"

text \<open>
  \<^verbatim>\<open>s.lastIndexOf("\n")\<close> for a one-unit needle: the greatest index holding it, or
  \<open>-1\<close>. The scan keeps the last index seen.
\<close>

fun lastIndexOf_scan :: "int \<Rightarrow> int \<Rightarrow> js_string \<Rightarrow> code_unit \<Rightarrow> int" where
  "lastIndexOf_scan i found [] c = found"
| "lastIndexOf_scan i found (x # xs) c =
     lastIndexOf_scan (i + 1) (if x = c then i else found) xs c"

definition lastIndexOf :: "js_string \<Rightarrow> code_unit \<Rightarrow> int" where
  "lastIndexOf s c = lastIndexOf_scan 0 (- 1) s c"

text \<open>
  \<^verbatim>\<open>s.split("\n")\<close> and \<^verbatim>\<open>a.join("\n")\<close>. Splitting the empty string gives one
  empty piece, so the array is never empty.
\<close>

fun split :: "code_unit \<Rightarrow> js_string \<Rightarrow> js_string list" where
  "split c [] = [[]]"
| "split c (x # xs) =
     (if x = c then [] # split c xs
      else (case split c xs of [] \<Rightarrow> [[x]] | l # ls \<Rightarrow> (x # l) # ls))"

fun join :: "code_unit \<Rightarrow> js_string list \<Rightarrow> js_string" where
  "join c [] = []"
| "join c [l] = l"
| "join c (l # ls) = l @ c # join c ls"

text \<open>\<^verbatim>\<open>s.startsWith(p)\<close>.\<close>

fun startsWith :: "js_string \<Rightarrow> js_string \<Rightarrow> bool" where
  "startsWith s [] = True"
| "startsWith [] (p # ps) = False"
| "startsWith (x # xs) (p # ps) = (x = p \<and> startsWith xs ps)"

subsection \<open>The regular expressions of the source\<close>

text \<open>
  None of the four has the \<^verbatim>\<open>m\<close> flag, so \<^verbatim>\<open>^\<close> is the start and
  \<^verbatim>\<open>$\<close> the end of the whole subject.

  \<^verbatim>\<open>str.replace(/^\s\s/, "")\<close> removes the first two units when both are white space.
\<close>

fun replace_ws_ws :: "js_string \<Rightarrow> js_string" where
  "replace_ws_ws (a # b # rest) =
     (if is_whitespace a \<and> is_whitespace b then rest else a # b # rest)"
| "replace_ws_ws str = str"

text \<open>
  \<^verbatim>\<open>currentLine.match(/^(\s+)/)\<close>: \<open>None\<close> for \<^verbatim>\<open>null\<close>, otherwise element
  \<open>0\<close> of the match, the greedy run of white space at the start.
\<close>

definition match_leading_ws :: "js_string \<Rightarrow> js_string option" where
  "match_leading_ws str =
     (case takeWhile is_whitespace str of [] \<Rightarrow> None | w # ws \<Rightarrow> Some (w # ws))"

text \<open>\<^verbatim>\<open>currentLine.match(/([{\[:>])$/)\<close>, read as a truth value.\<close>

definition is_block_opener :: "code_unit \<Rightarrow> bool" where
  "is_block_opener c \<longleftrightarrow> c = 0x7B \<or> c = 0x5B \<or> c = 0x3A \<or> c = 0x3E"

fun match_opener_at_end :: "js_string \<Rightarrow> bool" where
  "match_opener_at_end [] = False"
| "match_opener_at_end [c] = is_block_opener c"
| "match_opener_at_end (c # cs) = match_opener_at_end cs"

text \<open>\<^verbatim>\<open>currentLine.match(/^\s{2,}$/)\<close>, read as a truth value.\<close>

definition match_only_ws2 :: "js_string \<Rightarrow> bool" where
  "match_only_ws2 str \<longleftrightarrow> 2 \<le> length str \<and> list_all is_whitespace str"

subsection \<open>The text control\<close>

text \<open>
  \<^verbatim>\<open>selectionStart\<close> and \<^verbatim>\<open>selectionEnd\<close> are \<^verbatim>\<open>unsigned long\<close>
  attributes; the platform keeps them ordered and inside the value.
\<close>

record textarea =
  text_value :: js_string
  selectionStart :: nat
  selectionEnd :: nat

definition valid_selection :: "textarea \<Rightarrow> bool" where
  "valid_selection ta \<longleftrightarrow>
     selectionStart ta \<le> selectionEnd ta \<and> selectionEnd ta \<le> length (text_value ta)"

text \<open>
  The conversion of a number to \<^verbatim>\<open>unsigned long\<close> at the interface of the platform
  (Web IDL): an integer is reduced modulo \<open>2 ^ 32\<close>, so a negative offset becomes a
  very large one.
\<close>

definition to_unsigned_long :: "int \<Rightarrow> nat" where
  "to_unsigned_long n = nat (n mod 2 ^ 32)"

text \<open>
  \<^verbatim>\<open>textarea.setSelectionRange(start, end)\<close>, as the HTML standard defines it:
  an argument beyond the length of the value points at the end of the value, and when
  the end is not after the start both are placed at the end.
\<close>

definition setSelectionRange :: "textarea \<Rightarrow> int \<Rightarrow> int \<Rightarrow> textarea" where
  "setSelectionRange ta start fin =
     (let e = min (to_unsigned_long fin) (length (text_value ta));
          s = min (to_unsigned_long start) e
      in ta\<lparr>selectionStart := s, selectionEnd := e\<rparr>)"

text \<open>
  \<^verbatim>\<open>document.execCommand("insertText", false, text)\<close> on the focused control: the
  selected range is replaced by the text and the caret is left, collapsed, after it.
  The control hands the selection to the editing command of the browser, and two things
  observed in Chromium are part of the model.

  The command does not edit in the middle of a character. A selection offset that lies
  between the two units of a surrogate pair (a unit from \<open>D800\<close> to \<open>DBFF\<close> followed by
  one from \<open>DC00\<close> to \<open>DFFF\<close>) is moved to after the pair before the range is
  replaced: Tab at caret \<open>1\<close> of the two units of U+1F600 leaves both units in place
  and puts the spaces after them.

  When the text is empty and the replaced range is a whole last line, from just after a
  line feed to the end of the value, the caret is left before that line feed and not
  after it: Shift+Tab at the end of \<^verbatim>\<open>"b\n  "\<close> gives \<^verbatim>\<open>"b\n"\<close> with the caret
  at \<open>1\<close>.
\<close>

definition is_high_surrogate :: "code_unit \<Rightarrow> bool" where
  "is_high_surrogate c \<longleftrightarrow> 0xD800 \<le> c \<and> c \<le> 0xDBFF"

definition is_low_surrogate :: "code_unit \<Rightarrow> bool" where
  "is_low_surrogate c \<longleftrightarrow> 0xDC00 \<le> c \<and> c \<le> 0xDFFF"

definition splits_pair :: "js_string \<Rightarrow> nat \<Rightarrow> bool" where
  "splits_pair v n \<longleftrightarrow>
     0 < n \<and> n < length v \<and> is_high_surrogate (v ! (n - 1)) \<and> is_low_surrogate (v ! n)"

definition past_pair :: "js_string \<Rightarrow> nat \<Rightarrow> nat" where
  "past_pair v n = (if splits_pair v n then n + 1 else n)"

definition insertText :: "textarea \<Rightarrow> js_string \<Rightarrow> textarea" where
  "insertText ta txt =
     (let v = text_value ta;
          s = past_pair v (selectionStart ta);
          e = past_pair v (selectionEnd ta);
          caret = (if txt = [] \<and> s < e \<and> e = length v \<and> 0 < s \<and> v ! (s - 1) = LF
                   then s - 1 else s + length txt)
      in ta\<lparr>text_value := take s v @ txt @ drop e v,
            selectionStart := caret, selectionEnd := caret\<rparr>)"

subsection \<open>The functions of the source\<close>

definition indentText :: "js_string \<Rightarrow> js_string" where
  "indentText txt = join LF (map (\<lambda>str. js ''  '' @ str) (split LF txt))"

definition dedentText :: "js_string \<Rightarrow> js_string" where
  "dedentText txt = join LF (map (\<lambda>str. replace_ws_ws str) (split LF txt))"

definition getCurrentlySelectedLine :: "textarea \<Rightarrow> js_string" where
  "getCurrentlySelectedLine ta =
     (let original = text_value ta;
          selStart = int (selectionStart ta);
          beforeStart = slice original 0 selStart
      in hd (split LF
           (slice_from original
              (if lastIndexOf beforeStart LF \<noteq> - 1
               then lastIndexOf beforeStart LF + 1 else 0))))"

text \<open>\<^verbatim>\<open>n || 0\<close> on a number: \<open>0\<close> is the only falsy integer.\<close>

definition or_zero :: "int \<Rightarrow> int" where
  "or_zero n = (if n = 0 then 0 else n)"

definition handleTab :: "textarea \<Rightarrow> bool \<Rightarrow> textarea" where
  "handleTab ta shiftKey =
     (let original = text_value ta;
          start = int (selectionStart ta);
          fin = int (selectionEnd ta);
          beforeStart = slice original 0 start;
          currentLine = getCurrentlySelectedLine ta
      in if start = fin then
           (if shiftKey then
              (let newStart = lastIndexOf beforeStart LF + 1;
                   ta1 = setSelectionRange ta newStart fin
               in insertText ta1 (dedentText (slice original newStart fin)))
            else insertText ta (js ''  ''))
         else
           (let newStart = or_zero (lastIndexOf beforeStart LF + 1);
                ta1 = setSelectionRange ta newStart fin
            in if shiftKey then
                 (let newText = dedentText (slice original newStart fin);
                      ta2 = insertText ta1 newText
                  in if startsWith currentLine (js ''  '')
                     then setSelectionRange ta2 (start - 2)
                            (start - 2 + int (length newText))
                     else setSelectionRange ta2 start (start + int (length newText)))
               else
                 (let newText = indentText (slice original newStart fin);
                      ta2 = insertText ta1 newText
                  in setSelectionRange ta2 (start + 2)
                       (start + 2 + int (length newText)))))"

definition wantedIndentation :: "js_string \<Rightarrow> js_string" where
  "wantedIndentation currentLine =
     (let currentIndentationMatch = match_leading_ws currentLine;
          wanted = (case currentIndentationMatch of Some m \<Rightarrow> m | None \<Rightarrow> [])
      in if match_opener_at_end currentLine then wanted @ js ''  '' else wanted)"

definition handleEnter :: "textarea \<Rightarrow> textarea" where
  "handleEnter ta =
     (let currentLine = getCurrentlySelectedLine ta
      in insertText ta (LF # wantedIndentation currentLine))"

definition handleBracketClose :: "textarea \<Rightarrow> textarea" where
  "handleBracketClose ta =
     (let currentLine = getCurrentlySelectedLine ta;
          selStart = int (selectionStart ta);
          selEnd = int (selectionEnd ta);
          ta1 = (if selStart = selEnd \<and> match_only_ws2 currentLine
                 then setSelectionRange ta (selStart - 2) selEnd else ta)
      in insertText ta1 (js ''}''))"

text \<open>
  The dispatch of \<^verbatim>\<open>handleKeyDown\<close> on \<^verbatim>\<open>event.key\<close>; any other key leaves
  the control to the platform and is not modelled as an edit.
\<close>

record keyboardEvent =
  key :: string
  shiftKey :: bool

definition handleKeyDown :: "keyboardEvent \<Rightarrow> textarea \<Rightarrow> textarea" where
  "handleKeyDown event ta =
     (if key event = ''Tab'' then handleTab ta (shiftKey event)
      else if key event = ''}'' then handleBracketClose ta
      else if key event = ''Enter'' then handleEnter ta
      else ta)"

subsection \<open>Lines of a buffer\<close>

text \<open>
  Two notions used to state what the handlers do. \<open>line_begin buffer offset\<close> is the
  offset at which the line holding \<open>offset\<close> begins: going back from \<open>offset\<close>, the
  position just after the nearest line feed, or \<open>0\<close>. \<open>line_text buffer offset\<close> is
  that whole line, from its beginning up to the next line feed or the end of the buffer.
\<close>

definition line_begin :: "js_string \<Rightarrow> nat \<Rightarrow> nat" where
  "line_begin buffer offset =
     offset - length (takeWhile (\<lambda>c. c \<noteq> LF) (rev (take offset buffer)))"

definition line_text :: "js_string \<Rightarrow> nat \<Rightarrow> js_string" where
  "line_text buffer offset =
     takeWhile (\<lambda>c. c \<noteq> LF) (drop (line_begin buffer offset) buffer)"

section \<open>Properties of the string operations\<close>

text \<open>The literals of the source.\<close>

lemma js_two_spaces: "js ''  '' = [SP, SP]"
  by (simp add: js_def SP_def)

lemma js_brace: "js ''}'' = [0x7D]"
  by (simp add: js_def)

text \<open>
  Splitting and joining are inverse to each other: joining the pieces of a string gives
  the string back, no piece holds the separator, and a non-empty list of pieces without
  the separator is what splitting their join returns.
\<close>

lemma split_not_Nil: "split c s \<noteq> []"
  by (induction s) (auto split: list.splits)

lemma split_sep_free: "c \<notin> set l \<Longrightarrow> split c l = [l]"
  by (induction l) auto

lemma split_append_sep: "c \<notin> set l \<Longrightarrow> split c (l @ c # r) = l # split c r"
  by (induction l) auto

lemma hd_split: "hd (split c s) = takeWhile (\<lambda>x. x \<noteq> c) s"
  by (induction s) (auto split: list.splits simp: split_not_Nil)

lemma join_split: "join c (split c s) = s"
proof (induction s)
  case Nil
  show ?case by simp
next
  case (Cons x xs)
  obtain l ls where sp: "split c xs = l # ls"
    using split_not_Nil [of c xs] by (cases "split c xs") auto
  show ?case
  proof (cases "x = c")
    case True
    with Cons sp show ?thesis by simp
  next
    case False
    with Cons sp show ?thesis by (cases ls) auto
  qed
qed

lemma set_split_free: "l \<in> set (split c s) \<Longrightarrow> c \<notin> set l"
  by (induction s arbitrary: l) (auto split: list.splits if_splits)

lemma join_Cons: "ls \<noteq> [] \<Longrightarrow> join c (l # ls) = l @ c # join c ls"
  by (cases ls) auto

lemma split_join: "ls \<noteq> [] \<Longrightarrow> \<forall>l\<in>set ls. c \<notin> set l \<Longrightarrow> split c (join c ls) = ls"
proof (induction ls)
  case Nil
  then show ?case by simp
next
  case (Cons l ls)
  show ?case
  proof (cases ls)
    case Nil
    with Cons.prems show ?thesis by (simp add: split_sep_free)
  next
    case (Cons m ms)
    with Cons.prems Cons.IH show ?thesis
      by (simp add: split_append_sep)
  qed
qed

lemma length_join_split: "length (split c s) = Suc (count_list s c)"
  by (induction s) (auto split: list.splits simp: split_not_Nil)

text \<open>
  \<open>lastIndexOf\<close> counts back from the end to the separator: one more than its
  result is the length of the string minus the length of its last separator-free run,
  which is \<open>0\<close> when the separator does not occur and the result is \<open>-1\<close>.
\<close>

lemma takeWhile_free: "c \<notin> set xs \<Longrightarrow> takeWhile (\<lambda>x. x \<noteq> c) xs = xs"
  by (induction xs) auto

lemma takeWhile_upto_sep: "c \<notin> set xs \<Longrightarrow> takeWhile (\<lambda>x. x \<noteq> c) (xs @ c # r) = xs"
  by (induction xs) auto

lemma lastIndexOf_scan_eq:
  "lastIndexOf_scan i found s c =
     (if c \<in> set s
      then i + int (length s) - 1 - int (length (takeWhile (\<lambda>x. x \<noteq> c) (rev s)))
      else found)"
proof (induction s arbitrary: i found)
  case Nil
  show ?case by simp
next
  case (Cons x xs)
  show ?case
  proof (cases "c \<in> set xs")
    case True
    then have "\<not> (\<forall>y\<in>set (rev xs). y \<noteq> c)" by auto
    then have "takeWhile (\<lambda>x. x \<noteq> c) (rev xs @ [x]) = takeWhile (\<lambda>x. x \<noteq> c) (rev xs)"
      by (metis (mono_tags, lifting) takeWhile_append1)
    with True Cons show ?thesis by simp
  next
    case False
    show ?thesis
    proof (cases "x = c")
      case True
      with False have "takeWhile (\<lambda>x. x \<noteq> c) (rev xs @ [x]) = rev xs"
        by (simp add: takeWhile_upto_sep)
      with True False Cons show ?thesis by simp
    next
      case neq: False
      with False Cons show ?thesis by simp
    qed
  qed
qed

lemma lastIndexOf_eq:
  "lastIndexOf s c + 1 = int (length s - length (takeWhile (\<lambda>x. x \<noteq> c) (rev s)))"
proof (cases "c \<in> set s")
  case True
  have "length (takeWhile (\<lambda>x. x \<noteq> c) (rev s)) < length s"
  proof -
    have "takeWhile (\<lambda>x. x \<noteq> c) (rev s) \<noteq> rev s"
      using True by (simp add: takeWhile_eq_all_conv)
    moreover have "length (takeWhile (\<lambda>x. x \<noteq> c) (rev s)) \<le> length (rev s)"
      by (rule length_takeWhile_le)
    ultimately show ?thesis
      by (metis le_neq_implies_less length_rev takeWhile_eq_take take_all)
  qed
  with True show ?thesis by (simp add: lastIndexOf_def lastIndexOf_scan_eq)
next
  case False
  then have "takeWhile (\<lambda>x. x \<noteq> c) (rev s) = rev s" by (simp add: takeWhile_free)
  with False show ?thesis by (simp only: lastIndexOf_def lastIndexOf_scan_eq if_False length_rev)
qed

text \<open>Slices with bounds in order and inside the string.\<close>

lemma slice_take_drop:
  "a \<le> b \<Longrightarrow> b \<le> length s \<Longrightarrow> slice s (int a) (int b) = take (b - a) (drop a s)"
  by (simp add: slice_def Let_def min_def nat_diff_distrib')

lemma slice_from_drop: "a \<le> length s \<Longrightarrow> slice_from s (int a) = drop a s"
  by (simp add: slice_from_def slice_def Let_def min_def nat_diff_distrib')

section \<open>The line of the selection start\<close>

text \<open>
  The offset \<open>newStart\<close> that \<open>handleTab\<close> computes is \<open>line_begin\<close>, and
  \<open>getCurrentlySelectedLine\<close> returns \<open>line_text\<close>, the whole line whatever the
  position of the selection start in it.
\<close>

lemma or_zero_id: "or_zero n = n"
  by (simp add: or_zero_def)

lemma line_begin_le: "line_begin v n \<le> n"
  by (simp add: line_begin_def)

lemma newStart_eq:
  assumes "n \<le> length v"
  shows "lastIndexOf (slice v 0 (int n)) LF + 1 = int (line_begin v n)"
proof -
  have "slice v 0 (int n) = take n v"
    using assms slice_take_drop [of 0 n v] by simp
  moreover have "length (take n v) = n"
    using assms by simp
  ultimately show ?thesis
    by (simp only: lastIndexOf_eq line_begin_def)
qed

lemma getCurrentlySelectedLine_eq:
  assumes "selectionStart ta \<le> length (text_value ta)"
  shows "getCurrentlySelectedLine ta = line_text (text_value ta) (selectionStart ta)"
proof -
  let ?v = "text_value ta" and ?s = "selectionStart ta"
  let ?i = "lastIndexOf (slice ?v 0 (int ?s)) LF"
  have i: "?i + 1 = int (line_begin ?v ?s)"
    using assms by (rule newStart_eq)
  then have "(if ?i \<noteq> - 1 then ?i + 1 else 0) = int (line_begin ?v ?s)"
    by auto
  moreover have "line_begin ?v ?s \<le> length ?v"
    using assms line_begin_le [of ?v ?s] by simp
  ultimately show ?thesis
    by (simp add: getCurrentlySelectedLine_def Let_def slice_from_drop hd_split line_text_def)
qed

text \<open>
  \<open>line_begin\<close> and \<open>line_text\<close> are what they are meant to be: if the buffer is
  \<open>pre @ L @ post\<close>, where \<open>L\<close> has no line feed, \<open>pre\<close> is empty or ends with one
  and \<open>post\<close> is empty or starts with one, then for every offset from the start to the
  end of \<open>L\<close> the line begins at \<open>length pre\<close> and its text is \<open>L\<close>. Conversely the
  offset \<open>line_begin\<close> is \<open>0\<close> or follows a line feed, and no line feed lies between
  it and the offset.
\<close>

lemma takeWhile_free_append:
  "c \<notin> set xs \<Longrightarrow> takeWhile (\<lambda>x. x \<noteq> c) (xs @ ys) = xs @ takeWhile (\<lambda>x. x \<noteq> c) ys"
  by (induction xs) auto

lemma line_of_decomposition:
  assumes v: "v = pre @ L @ post"
    and L: "LF \<notin> set L"
    and pre: "pre = [] \<or> last pre = LF"
    and post: "post = [] \<or> hd post = LF"
    and lo: "length pre \<le> n" and hi: "n \<le> length pre + length L"
  shows "line_begin v n = length pre" and "line_text v n = L"
proof -
  let ?k = "n - length pre"
  have tk: "take n v = pre @ take ?k L"
    using v lo hi by simp
  have free: "LF \<notin> set (rev (take ?k L))"
    using L by (auto dest: in_set_takeD)
  have "takeWhile (\<lambda>c. c \<noteq> LF) (rev pre) = []"
  proof (cases "pre = []")
    case True
    then show ?thesis by simp
  next
    case False
    with pre have "last pre = LF" by simp
    with False have "hd (rev pre) = LF" by (simp add: hd_rev)
    with False show ?thesis by (cases "rev pre") auto
  qed
  then have "takeWhile (\<lambda>c. c \<noteq> LF) (rev (take n v)) = rev (take ?k L)"
    using free tk by (simp add: takeWhile_free_append)
  then show lb: "line_begin v n = length pre"
    using lo hi by (simp add: line_begin_def)
  have "takeWhile (\<lambda>c. c \<noteq> LF) post = []"
    using post by (cases post) auto
  moreover have "drop (length pre) v = L @ post"
    using v by simp
  ultimately show "line_text v n = L"
    using L by (simp add: line_text_def lb takeWhile_free_append)
qed

lemma line_begin_boundary:
  assumes "n \<le> length v"
  shows "line_begin v n = 0 \<or> v ! (line_begin v n - 1) = LF"
proof -
  let ?w = "takeWhile (\<lambda>c. c \<noteq> LF) (rev (take n v))"
  show ?thesis
  proof (cases "length ?w < n")
    case False
    then show ?thesis by (simp add: line_begin_def)
  next
    case True
    then have lt: "length ?w < length (rev (take n v))"
      using assms by simp
    then have "rev (take n v) ! length ?w = LF"
      using nth_length_takeWhile [of "\<lambda>c. c \<noteq> LF" "rev (take n v)"] by simp
    moreover have "rev (take n v) ! length ?w = take n v ! (n - Suc (length ?w))"
      using lt assms by (simp add: rev_nth)
    ultimately show ?thesis
      using True by (simp add: line_begin_def)
  qed
qed

lemma line_begin_free:
  assumes "n \<le> length v"
  shows "LF \<notin> set (take (n - line_begin v n) (drop (line_begin v n) v))"
proof -
  let ?w = "takeWhile (\<lambda>c. c \<noteq> LF) (rev (take n v))"
  have len: "length ?w \<le> n"
    using assms length_takeWhile_le [of "\<lambda>c. c \<noteq> LF" "rev (take n v)"] by simp
  have "?w = take (length ?w) (rev (take n v))"
    by (rule takeWhile_eq_take)
  also have "\<dots> = rev (drop (n - length ?w) (take n v))"
    using assms by (simp add: take_rev)
  finally have "rev ?w = rev (rev (drop (n - length ?w) (take n v)))"
    by (rule arg_cong)
  then have w: "rev ?w = drop (n - length ?w) (take n v)"
    by (simp only: rev_rev_ident)
  have "LF \<notin> set ?w"
    by (auto dest: set_takeWhileD)
  then have "LF \<notin> set (rev ?w)"
    by simp
  then have "LF \<notin> set (drop (n - length ?w) (take n v))"
    by (simp only: w not_False_eq_True)
  moreover have "drop (n - length ?w) (take n v)
      = take (n - (n - length ?w)) (drop (n - length ?w) v)"
    by (simp add: drop_take)
  ultimately show ?thesis
    by (simp add: line_begin_def)
qed

section \<open>The primitives of the platform on offsets in range\<close>

lemma to_unsigned_long_int: "n < 2 ^ 32 \<Longrightarrow> to_unsigned_long (int n) = n"
  by (simp add: to_unsigned_long_def nat_mod_distrib)

lemma setSelectionRange_int:
  assumes "a \<le> b" and "b < 2 ^ 32"
  shows "setSelectionRange ta (int a) (int b) =
           ta\<lparr>selectionStart := min a (length (text_value ta)),
              selectionEnd := min b (length (text_value ta))\<rparr>"
proof -
  have "to_unsigned_long (int a) = a" "to_unsigned_long (int b) = b"
    using assms by (simp_all add: to_unsigned_long_int)
  with assms show ?thesis
    by (simp add: setSelectionRange_def Let_def min_def)
qed

lemma setSelectionRange_inside:
  assumes "a \<le> b" and "b \<le> length (text_value ta)" and "b < 2 ^ 32"
  shows "setSelectionRange ta (int a) (int b) = ta\<lparr>selectionStart := a, selectionEnd := b\<rparr>"
  using assms by (simp add: setSelectionRange_int min_def)

text \<open>
  Moving an offset past a surrogate pair keeps the order of two offsets and keeps them
  inside the value. An offset at the start of the value, or after a unit that is not a
  high surrogate, is not inside a pair; the beginning of a line and every offset of a
  line of white space are of that kind.
\<close>

lemma past_pair_id: "\<not> splits_pair v n \<Longrightarrow> past_pair v n = n"
  by (simp add: past_pair_def)

lemma past_pair_le_length: "n \<le> length v \<Longrightarrow> past_pair v n \<le> length v"
  by (simp add: past_pair_def splits_pair_def)

lemma past_pair_mono: "a \<le> b \<Longrightarrow> past_pair v a \<le> past_pair v b"
  by (cases "a = b") (auto simp add: past_pair_def)

lemma LF_not_high_surrogate: "\<not> is_high_surrogate LF"
  by (simp add: is_high_surrogate_def LF_def)

lemma whitespace_not_high_surrogate: "is_whitespace c \<Longrightarrow> \<not> is_high_surrogate c"
  by (auto simp add: is_whitespace_def is_high_surrogate_def word_le_nat_alt)

lemma not_splits_pair_line_begin:
  assumes "n \<le> length v"
  shows "\<not> splits_pair v (line_begin v n)"
  using line_begin_boundary [OF assms] LF_not_high_surrogate
  by (auto simp add: splits_pair_def)

lemma text_value_insertText:
  "text_value (insertText ta txt) =
     take (past_pair (text_value ta) (selectionStart ta)) (text_value ta) @ txt
       @ drop (past_pair (text_value ta) (selectionEnd ta)) (text_value ta)"
  by (simp add: insertText_def Let_def)

lemma text_value_insertText_plain:
  assumes "\<not> splits_pair (text_value ta) (selectionStart ta)"
    and "\<not> splits_pair (text_value ta) (selectionEnd ta)"
  shows "text_value (insertText ta txt) =
     take (selectionStart ta) (text_value ta) @ txt @ drop (selectionEnd ta) (text_value ta)"
  using assms by (simp add: text_value_insertText past_pair_id)

lemma insertText_plain:
  assumes "\<not> splits_pair (text_value ta) (selectionStart ta)"
    and "\<not> splits_pair (text_value ta) (selectionEnd ta)"
    and "txt \<noteq> []"
  shows "insertText ta txt =
     ta\<lparr>text_value := take (selectionStart ta) (text_value ta) @ txt
                        @ drop (selectionEnd ta) (text_value ta),
        selectionStart := selectionStart ta + length txt,
        selectionEnd := selectionStart ta + length txt\<rparr>"
  using assms by (simp add: insertText_def Let_def past_pair_id)

section \<open>Indenting and dedenting a block\<close>

lemma SP_not_LF: "SP \<noteq> LF"
  by (simp add: SP_def LF_def)

lemma is_whitespace_SP: "is_whitespace SP"
  by (simp add: is_whitespace_def SP_def)

lemma indentText_lines:
  "split LF (indentText txt) = map (\<lambda>line. SP # SP # line) (split LF txt)"
proof -
  have "\<forall>l\<in>set (map (\<lambda>line. SP # SP # line) (split LF txt)). LF \<notin> set l"
    using SP_not_LF by (auto dest: set_split_free)
  then show ?thesis
    by (simp add: indentText_def js_two_spaces split_join split_not_Nil)
qed

lemma join_Cons_Cons: "join c ((x # l) # ls) = x # join c (l # ls)"
  by (cases ls) simp_all

lemma indentText_Nil: "indentText [] = [SP, SP]"
  by (simp add: indentText_def js_two_spaces)

lemma indentText_Cons:
  "indentText (x # xs) =
     (if x = LF then SP # SP # LF # indentText xs else SP # SP # x # drop 2 (indentText xs))"
proof -
  obtain l ls where sp: "split LF xs = l # ls"
    using split_not_Nil [of LF xs] by (cases "split LF xs") auto
  show ?thesis
    by (simp add: indentText_def js_two_spaces sp join_Cons_Cons join_Cons)
qed

lemma indentText_units:
  "indentText txt = SP # SP # concat (map (\<lambda>c. if c = LF then [LF, SP, SP] else [c]) txt)"
  by (induction "txt") (simp_all add: indentText_Nil indentText_Cons)

lemma replace_ws_ws_eq:
  "replace_ws_ws line =
     (if 2 \<le> length line \<and> is_whitespace (line ! 0) \<and> is_whitespace (line ! 1)
      then drop 2 line else line)"
  by (induction line rule: replace_ws_ws.induct) simp_all

lemma set_replace_ws_ws: "set (replace_ws_ws line) \<subseteq> set line"
  by (induction line rule: replace_ws_ws.induct) auto

lemma dedentText_lines: "split LF (dedentText txt) = map replace_ws_ws (split LF txt)"
proof -
  have "\<forall>l\<in>set (map replace_ws_ws (split LF txt)). LF \<notin> set l"
    using set_replace_ws_ws by (auto dest: set_split_free)
  then show ?thesis
    by (simp add: dedentText_def split_join split_not_Nil)
qed

lemma dedentText_indentText: "dedentText (indentText txt) = txt"
proof -
  have "map replace_ws_ws (map (\<lambda>line. SP # SP # line) (split LF txt)) = split LF txt"
    by (simp add: is_whitespace_SP comp_def)
  then show ?thesis
    by (simp add: dedentText_def indentText_lines join_split)
qed

text \<open>
  Claim C9. For every text, \<open>indentText\<close> splits at the line feeds, puts exactly two
  spaces before every piece and joins the pieces with line feeds again. The lines of the
  result are the lines of the text, each with two spaces in front, an empty line
  included; read unit by unit, two spaces are added at the start of the text and after
  every line feed. The empty text becomes two spaces.
\<close>

theorem indentText_prefixes_every_line:
  "split LF (indentText txt) = map (\<lambda>line. SP # SP # line) (split LF txt) \<and>
   indentText txt = join LF (map (\<lambda>line. SP # SP # line) (split LF txt)) \<and>
   indentText txt = SP # SP # concat (map (\<lambda>c. if c = LF then [LF, SP, SP] else [c]) txt) \<and>
   indentText [] = [SP, SP]"
proof (intro conjI)
  show "split LF (indentText txt) = map (\<lambda>line. SP # SP # line) (split LF txt)"
    by (rule indentText_lines)
  show "indentText txt = join LF (map (\<lambda>line. SP # SP # line) (split LF txt))"
    by (simp add: indentText_def js_two_spaces)
  show "indentText txt
      = SP # SP # concat (map (\<lambda>c. if c = LF then [LF, SP, SP] else [c]) txt)"
    by (rule indentText_units)
  show "indentText [] = [SP, SP]"
    by (rule indentText_Nil)
qed

text \<open>
  Claim C4. For every text, \<open>dedentText\<close> acts on each line on its own: a line
  loses its first two units when both are white space (the anchored pattern
  \<^verbatim>\<open>^\s\s\<close>) and is left as it is otherwise. In particular a line that starts
  with one space followed by no further white space is not changed, and a line that
  starts with two spaces loses exactly these two.
\<close>

theorem dedentText_strips_two_whitespace_units:
  "split LF (dedentText txt) =
     map (\<lambda>line. if 2 \<le> length line \<and> is_whitespace (line ! 0) \<and> is_whitespace (line ! 1)
                 then drop 2 line else line) (split LF txt) \<and>
   (i < length (split LF txt) \<and> split LF txt ! i = SP # r \<and>
      (r = [] \<or> \<not> is_whitespace (hd r)) \<longrightarrow>
        split LF (dedentText txt) ! i = SP # r) \<and>
   (i < length (split LF txt) \<and> split LF txt ! i = SP # SP # r \<longrightarrow>
        split LF (dedentText txt) ! i = r)"
proof -
  have one: "replace_ws_ws (SP # r) = SP # r" if "r = [] \<or> \<not> is_whitespace (hd r)"
    using that by (cases r) auto
  have two: "replace_ws_ws (SP # SP # r) = r"
    by (simp add: is_whitespace_SP)
  have "map replace_ws_ws (split LF txt) =
      map (\<lambda>line. if 2 \<le> length line \<and> is_whitespace (line ! 0) \<and> is_whitespace (line ! 1)
                 then drop 2 line else line) (split LF txt)"
    by (rule map_cong) (simp_all add: replace_ws_ws_eq)
  then show ?thesis
    using one two by (simp add: dedentText_lines) 
qed

theorem dedentText_strips_two_whitespace_units_witness:
  "split LF (dedentText (js '' a'' @ LF # js ''   b'')) ! 0 = js '' a'' \<and>
   split LF (dedentText (js '' a'' @ LF # js ''   b'')) ! 1 = js '' b''"
proof -
  let ?T = "js '' a'' @ LF # js ''   b''"
  have s: "split LF ?T = [js '' a'', js ''   b'']"
    by (simp add: js_def LF_def)
  have a: "js '' a'' = SP # js ''a''" and b: "js ''   b'' = SP # SP # js '' b''"
    by (simp_all add: js_def SP_def)
  have w: "\<not> is_whitespace (hd (js ''a''))"
    by (simp add: js_def is_whitespace_def)
  have p0: "0 < length (split LF ?T) \<and> split LF ?T ! 0 = SP # js ''a'' \<and>
      (js ''a'' = [] \<or> \<not> is_whitespace (hd (js ''a'')))"
    unfolding s using a w by simp
  have p1: "1 < length (split LF ?T) \<and> split LF ?T ! 1 = SP # SP # js '' b''"
    unfolding s using b by simp
  have "split LF (dedentText ?T) ! 0 = SP # js ''a''"
    using dedentText_strips_two_whitespace_units [of ?T 0 "js ''a''"] p0 by blast
  moreover have "split LF (dedentText ?T) ! 1 = js '' b''"
    using dedentText_strips_two_whitespace_units [of ?T 1 "js '' b''"] p1 by blast
  ultimately show ?thesis
    by (simp only: a)
qed

text \<open>
  Claim C7. Dedenting an indented text gives the text back. The two spaces that
  \<open>indentText\<close> puts before each line are the two white space units that
  \<open>dedentText\<close> removes, whatever the line held before, so the equation needs no
  condition on the text.
\<close>

theorem dedent_after_indent_restores_text: "dedentText (indentText txt) = txt"
  by (rule dedentText_indentText)

section \<open>Tab at a caret\<close>

text \<open>
  Claim C8, as stated, says that for every buffer and every collapsed caret Tab without
  shift inserts two spaces at the caret and the new caret is the old one plus \<open>2\<close>.
  A caret between the two units of a surrogate pair is not a place where the platform
  inserts: with the value U+1F600, units \<open>D83D DE00\<close>, and the caret at \<open>1\<close>, the two
  spaces go after the pair and the caret ends at \<open>4\<close>, not at \<open>1 + 2\<close>.
\<close>

theorem tab_at_caret_in_surrogate_pair_counterexample:
  "valid_selection \<lparr>text_value = [0xD83D, 0xDE00], selectionStart = 1, selectionEnd = 1\<rparr> \<and>
   handleTab \<lparr>text_value = [0xD83D, 0xDE00], selectionStart = 1, selectionEnd = 1\<rparr> False
     = \<lparr>text_value = [0xD83D, 0xDE00, SP, SP], selectionStart = 4, selectionEnd = 4\<rparr> \<and>
   [0xD83D, 0xDE00, SP, SP] \<noteq> take 1 [0xD83D, 0xDE00] @ [SP, SP] @ drop 1 [0xD83D, 0xDE00] \<and>
   (4::nat) \<noteq> 1 + 2"
proof -
  have p: "past_pair [0xD83D, 0xDE00] (Suc 0) = 2"
    by (simp add: past_pair_def splits_pair_def is_high_surrogate_def is_low_surrogate_def)
  have "handleTab \<lparr>text_value = [0xD83D, 0xDE00], selectionStart = 1, selectionEnd = 1\<rparr> False
      = \<lparr>text_value = [0xD83D, 0xDE00, SP, SP], selectionStart = 4, selectionEnd = 4\<rparr>"
    by (simp add: handleTab_def insertText_def Let_def p js_two_spaces)
  then show ?thesis
    by (simp add: valid_selection_def SP_def)
qed

text \<open>
  Claim C8, amended. For every buffer and every collapsed caret (\<open>start = end\<close>) that
  is not between the two units of a surrogate pair, Tab without shift inserts exactly
  two spaces at the caret and the new caret is the old one plus \<open>2\<close>. The witness is
  the example of the specification: Tab in \<^verbatim>\<open>"ab"\<close> at \<open>{1,1}\<close> gives
  \<^verbatim>\<open>"a  b"\<close> with the selection \<open>{3,3}\<close>.
\<close>

theorem tab_at_caret_inserts_two_spaces:
  "valid_selection ta \<Longrightarrow> selectionStart ta = selectionEnd ta \<Longrightarrow>
   \<not> splits_pair (text_value ta) (selectionStart ta) \<Longrightarrow>
     text_value (handleTab ta False) =
       take (selectionStart ta) (text_value ta) @ [SP, SP]
         @ drop (selectionStart ta) (text_value ta) \<and>
     selectionStart (handleTab ta False) = selectionStart ta + 2 \<and>
     selectionEnd (handleTab ta False) = selectionStart ta + 2 \<and>
     handleKeyDown \<lparr>key = ''Tab'', shiftKey = False\<rparr> ta = handleTab ta False"
  by (simp add: handleTab_def handleKeyDown_def insertText_plain js_two_spaces Let_def)

theorem tab_at_caret_inserts_two_spaces_witness:
  "handleKeyDown \<lparr>key = ''Tab'', shiftKey = False\<rparr>
     \<lparr>text_value = js ''ab'', selectionStart = 1, selectionEnd = 1\<rparr>
   = \<lparr>text_value = js ''a  b'', selectionStart = 3, selectionEnd = 3\<rparr>"
proof -
  let ?ta = "\<lparr>text_value = js ''ab'', selectionStart = 1, selectionEnd = 1\<rparr>"
  have v: "valid_selection ?ta"
    by (simp add: valid_selection_def js_def)
  have c: "selectionStart ?ta = selectionEnd ?ta"
    by simp
  have n: "\<not> splits_pair (text_value ?ta) (selectionStart ?ta)"
    by (simp add: splits_pair_def is_high_surrogate_def js_def)
  from tab_at_caret_inserts_two_spaces [OF v c n]
  show ?thesis
    by (simp add: js_def SP_def)
qed

text \<open>
  Shift+Tab at a caret dedents the current line from its beginning to the caret. At the
  end of \<^verbatim>\<open>"b\n  "\<close> the two spaces of the last line are replaced by the empty
  text, and the caret is left before the line feed.
\<close>

lemma shift_tab_at_caret:
  assumes v: "valid_selection ta" and c: "selectionStart ta = selectionEnd ta"
    and len: "length (text_value ta) < 2 ^ 32"
  shows "handleTab ta True =
     insertText (ta\<lparr>selectionStart := line_begin (text_value ta) (selectionStart ta)\<rparr>)
       (dedentText (take (selectionEnd ta - line_begin (text_value ta) (selectionStart ta))
          (drop (line_begin (text_value ta) (selectionStart ta)) (text_value ta))))"
proof -
  let ?v = "text_value ta" and ?s = "selectionStart ta" and ?e = "selectionEnd ta"
  let ?b = "line_begin ?v ?s"
  have se: "?s \<le> length ?v" "?e \<le> length ?v"
    using v by (simp_all add: valid_selection_def)
  have be: "?b \<le> ?e"
    using line_begin_le [of ?v ?s] c by simp
  have ns: "lastIndexOf (slice ?v 0 (int ?s)) LF + 1 = int ?b"
    using se by (simp only: newStart_eq)
  have sl: "slice ?v (int ?b) (int ?e) = take (?e - ?b) (drop ?b ?v)"
    using be se by (intro slice_take_drop)
  have "?e < 2 ^ 32"
    using se len by simp
  then have "setSelectionRange ta (int ?b) (int ?e)
      = ta\<lparr>selectionStart := ?b, selectionEnd := ?e\<rparr>"
    using be se by (intro setSelectionRange_inside)
  also have "\<dots> = ta\<lparr>selectionStart := ?b\<rparr>"
    by simp
  finally have ss: "setSelectionRange ta (int ?b) (int ?e) = ta\<lparr>selectionStart := ?b\<rparr>" .
  have eq: "(int ?s = int ?e) = True"
    using c by simp
  show ?thesis
    unfolding handleTab_def Let_def eq if_True ns sl ss ..
qed

lemma shift_tab_empties_last_line:
  "handleTab \<lparr>text_value = js ''b'' @ LF # js ''  '', selectionStart = 4, selectionEnd = 4\<rparr>
     True
   = \<lparr>text_value = js ''b'' @ [LF], selectionStart = 1, selectionEnd = 1\<rparr>"
proof -
  let ?ta = "\<lparr>text_value = js ''b'' @ LF # js ''  '', selectionStart = 4, selectionEnd = 4\<rparr>"
  have v: "valid_selection ?ta"
    by (simp add: valid_selection_def js_def)
  have c: "selectionStart ?ta = selectionEnd ?ta"
    by simp
  have len: "length (text_value ?ta) < 2 ^ 32"
    by (simp add: js_def)
  have b: "line_begin (text_value ?ta) (selectionStart ?ta) = 2"
    by (simp add: line_begin_def js_def LF_def)
  have blk: "take (selectionEnd ?ta - 2) (drop 2 (text_value ?ta)) = js ''  ''"
    by (simp add: js_def)
  have d: "dedentText (js ''  '') = []"
    by (simp add: dedentText_def js_def LF_def is_whitespace_def)
  have p: "past_pair (js ''b'' @ LF # js ''  '') 2 = 2"
    "past_pair (js ''b'' @ LF # js ''  '') 4 = 4"
    by (simp_all add: past_pair_def splits_pair_def is_high_surrogate_def js_def LF_def)
  show ?thesis
    unfolding shift_tab_at_caret [OF v c len] b blk d
    by (simp add: insertText_def Let_def p) (simp add: js_def)
qed

section \<open>Tab on a selection\<close>

lemma startsWith_iff: "startsWith s p \<longleftrightarrow> take (length p) s = p"
  by (induction s p rule: startsWith.induct) auto

lemma length_concat_units:
  "length (concat (map (\<lambda>c. if c = LF then [LF, SP, SP] else [c]) t)) \<ge> length t"
  "length (concat (map (\<lambda>c. if c = LF then [LF, SP, SP] else [c]) t)) \<le> 3 * length t"
  by (induction t) auto

lemma length_indentText_bounds:
  "length t + 2 \<le> length (indentText t)" "length (indentText t) \<le> 3 * length t + 2"
  using length_concat_units [of t] by (simp_all add: indentText_units)

lemma length_join:
  "ls \<noteq> [] \<Longrightarrow> Suc (length (join c ls)) = sum_list (map length ls) + length ls"
  by (induction c ls rule: join.induct) auto

lemma length_replace_ws_ws: "length (replace_ws_ws line) \<le> length line"
  by (induction line rule: replace_ws_ws.induct) auto

lemma length_dedentText: "length (dedentText t) \<le> length t"
proof -
  let ?ls = "split LF t"
  have ne: "?ls \<noteq> []" by (rule split_not_Nil)
  have "Suc (length (dedentText t))
      = sum_list (map length (map replace_ws_ws ?ls)) + length ?ls"
    using ne length_join [of "map replace_ws_ws ?ls" LF] by (simp add: dedentText_def)
  also have "\<dots> \<le> sum_list (map length ?ls) + length ?ls"
    by (simp add: comp_def sum_list_mono length_replace_ws_ws)
  also have "\<dots> = Suc (length (join LF ?ls))"
    using ne by (simp add: length_join)
  finally show ?thesis
    by (simp add: join_split)
qed

text \<open>The common first steps of \<open>handleTab\<close> on a selection.\<close>

lemma handleTab_selection:
  assumes v: "valid_selection ta" and ne: "selectionStart ta < selectionEnd ta"
    and len: "length (text_value ta) < 2 ^ 32"
  shows "handleTab ta shift =
     (let b = line_begin (text_value ta) (selectionStart ta);
          block = take (selectionEnd ta - b) (drop b (text_value ta));
          ta1 = ta\<lparr>selectionStart := b\<rparr>;
          start = int (selectionStart ta)
      in if shift then
           (let newText = dedentText block; ta2 = insertText ta1 newText
            in if take 2 (line_text (text_value ta) (selectionStart ta)) = [SP, SP]
               then setSelectionRange ta2 (start - 2) (start - 2 + int (length newText))
               else setSelectionRange ta2 start (start + int (length newText)))
         else
           (let newText = indentText block; ta2 = insertText ta1 newText
            in setSelectionRange ta2 (start + 2) (start + 2 + int (length newText))))"
proof -
  let ?v = "text_value ta" and ?s = "selectionStart ta" and ?e = "selectionEnd ta"
  let ?b = "line_begin ?v ?s"
  have se: "?s \<le> ?e" "?e \<le> length ?v" "?s \<le> length ?v"
    using v by (simp_all add: valid_selection_def)
  have be: "?b \<le> ?e"
    using line_begin_le [of ?v ?s] se by simp
  have ns: "or_zero (lastIndexOf (slice ?v 0 (int ?s)) LF + 1) = int ?b"
    using se by (simp only: or_zero_id newStart_eq)
  have sl: "slice ?v (int ?b) (int ?e) = take (?e - ?b) (drop ?b ?v)"
    using be se by (intro slice_take_drop)
  have "?e < 2 ^ 32"
    using se len by simp
  then have "setSelectionRange ta (int ?b) (int ?e) = ta\<lparr>selectionStart := ?b, selectionEnd := ?e\<rparr>"
    using be se by (intro setSelectionRange_inside)
  also have "\<dots> = ta\<lparr>selectionStart := ?b\<rparr>"
    by simp
  finally have ss: "setSelectionRange ta (int ?b) (int ?e) = ta\<lparr>selectionStart := ?b\<rparr>" .
  have cl: "getCurrentlySelectedLine ta = line_text ?v ?s"
    using se by (intro getCurrentlySelectedLine_eq)
  have sw: "startsWith (line_text ?v ?s) (js ''  '') = (take 2 (line_text ?v ?s) = [SP, SP])"
    by (simp add: startsWith_iff js_two_spaces numeral_2_eq_2)
  have neq: "(int ?s = int ?e) = False"
    using ne by simp
  show ?thesis
    unfolding handleTab_def Let_def neq if_False ns sl ss cl sw ..
qed

lemma text_value_setSelectionRange:
  "text_value (setSelectionRange ta a b) = text_value ta"
  by (simp add: setSelectionRange_def Let_def)

lemma setSelectionRange_nat:
  assumes "a \<le> b" and "b < 2 ^ 32"
  shows "selectionStart (setSelectionRange ta (int a) (int b)) = min a (length (text_value ta))"
    and "selectionEnd (setSelectionRange ta (int a) (int b)) = min b (length (text_value ta))"
  using assms by (simp_all add: setSelectionRange_int)

lemma handleTab_indent:
  assumes v: "valid_selection ta" and ne: "selectionStart ta < selectionEnd ta"
    and len: "length (text_value ta) < 2 ^ 30"
    and whole: "\<not> splits_pair (text_value ta) (selectionEnd ta)"
  defines "b \<equiv> line_begin (text_value ta) (selectionStart ta)"
  defines "inserted \<equiv> indentText (take (selectionEnd ta - b) (drop b (text_value ta)))"
  shows "text_value (handleTab ta False)
           = take b (text_value ta) @ inserted @ drop (selectionEnd ta) (text_value ta)"
    and "selectionStart (handleTab ta False) = selectionStart ta + 2"
    and "selectionEnd (handleTab ta False)
           = min (selectionStart ta + 2 + length inserted)
               (length (text_value (handleTab ta False)))"
proof -
  let ?v = "text_value ta" and ?s = "selectionStart ta" and ?e = "selectionEnd ta"
  let ?block = "take (?e - b) (drop b ?v)"
  let ?ta2 = "insertText (ta\<lparr>selectionStart := b\<rparr>) inserted"
  have se: "?e \<le> length ?v"
    using v by (simp add: valid_selection_def)
  have bs: "b \<le> ?s"
    unfolding b_def by (rule line_begin_le)
  have lb: "length ?block = ?e - b"
    using se by simp
  have lo: "?e - b + 2 \<le> length inserted" and hi: "length inserted \<le> 3 * (?e - b) + 2"
    unfolding inserted_def using length_indentText_bounds [of ?block] by (simp_all only: lb)
  have len32: "length ?v < 2 ^ 32"
    using len by simp
  have h: "handleTab ta False =
      setSelectionRange ?ta2 (int ?s + 2) (int ?s + 2 + int (length inserted))"
    unfolding b_def inserted_def
    using handleTab_selection [OF v ne len32, of False] by (simp only: Let_def if_False)
  have h': "handleTab ta False =
      setSelectionRange ?ta2 (int (?s + 2)) (int (?s + 2 + length inserted))"
  proof -
    have "int (?s + 2) = int ?s + 2"
      and "int (?s + 2 + length inserted) = int ?s + 2 + int (length inserted)"
      by simp_all
    then show ?thesis
      by (simp only: h)
  qed
  have "\<not> splits_pair ?v b"
    unfolding b_def using ne se by (intro not_splits_pair_line_begin) simp
  then have t2: "text_value ?ta2 = take b ?v @ inserted @ drop ?e ?v"
    using whole by (simp add: text_value_insertText_plain)
  have L: "length (text_value ?ta2) = b + length inserted + (length ?v - ?e)"
    using bs ne se by (simp add: t2)
  have fit: "?s + 2 + length inserted < 2 ^ 32"
    using hi ne se len by simp
  have inside: "?s + 2 \<le> length (text_value ?ta2)"
    unfolding L using lo bs ne se by arith
  show "text_value (handleTab ta False) = take b ?v @ inserted @ drop ?e ?v"
    by (simp only: h text_value_setSelectionRange t2)
  show "selectionStart (handleTab ta False) = ?s + 2"
  proof -
    have "selectionStart (handleTab ta False) = min (?s + 2) (length (text_value ?ta2))"
      unfolding h' using fit by (intro setSelectionRange_nat) simp_all
    with inside show ?thesis
      by (simp only: min_absorb1)
  qed
  show "selectionEnd (handleTab ta False)
      = min (?s + 2 + length inserted) (length (text_value (handleTab ta False)))"
    unfolding h' text_value_setSelectionRange
    using fit by (intro setSelectionRange_nat) simp_all
qed

lemma handleTab_dedent:
  assumes v: "valid_selection ta" and ne: "selectionStart ta < selectionEnd ta"
    and len: "length (text_value ta) < 2 ^ 30"
    and whole: "\<not> splits_pair (text_value ta) (selectionEnd ta)"
  defines "b \<equiv> line_begin (text_value ta) (selectionStart ta)"
  defines "dedented \<equiv> dedentText (take (selectionEnd ta - b) (drop b (text_value ta)))"
  defines "line \<equiv> line_text (text_value ta) (selectionStart ta)"
  defines "r \<equiv> handleTab ta True"
  shows "text_value r = take b (text_value ta) @ dedented @ drop (selectionEnd ta) (text_value ta)"
    and "take 2 line = [SP, SP] \<Longrightarrow> 2 \<le> selectionStart ta \<Longrightarrow>
           selectionStart r = min (selectionStart ta - 2) (length (text_value r)) \<and>
           selectionEnd r = min (selectionStart ta - 2 + length dedented) (length (text_value r))"
    and "take 2 line \<noteq> [SP, SP] \<Longrightarrow>
           selectionStart r = min (selectionStart ta) (length (text_value r)) \<and>
           selectionEnd r = min (selectionStart ta + length dedented) (length (text_value r))"
proof -
  let ?v = "text_value ta" and ?s = "selectionStart ta" and ?e = "selectionEnd ta"
  let ?block = "take (?e - b) (drop b ?v)"
  let ?ta2 = "insertText (ta\<lparr>selectionStart := b\<rparr>) dedented"
  let ?n = "length dedented"
  have se: "?e \<le> length ?v"
    using v by (simp add: valid_selection_def)
  have "length ?block = ?e - b"
    using se by simp
  then have hi: "?n \<le> ?e"
    unfolding dedented_def using length_dedentText [of ?block] by simp
  have len32: "length ?v < 2 ^ 32"
    using len by simp
  have h: "r = (if take 2 line = [SP, SP]
      then setSelectionRange ?ta2 (int ?s - 2) (int ?s - 2 + int ?n)
      else setSelectionRange ?ta2 (int ?s) (int ?s + int ?n))"
    unfolding b_def dedented_def line_def r_def
    using handleTab_selection [OF v ne len32, of True] by (simp only: Let_def if_True)
  have "\<not> splits_pair ?v b"
    unfolding b_def using ne se by (intro not_splits_pair_line_begin) simp
  then have t2: "text_value ?ta2 = take b ?v @ dedented @ drop ?e ?v"
    using whole by (simp add: text_value_insertText_plain)
  show t: "text_value r = take b ?v @ dedented @ drop ?e ?v"
    unfolding h by (simp add: text_value_setSelectionRange t2)
  have fit: "?s + ?n < 2 ^ 32"
    using hi ne se len by simp
  show "selectionStart r = min (?s - 2) (length (text_value r)) \<and>
      selectionEnd r = min (?s - 2 + ?n) (length (text_value r))"
    if two: "take 2 line = [SP, SP]" and s2: "2 \<le> ?s"
  proof -
    have "int (?s - 2) = int ?s - 2" and "int (?s - 2 + ?n) = int ?s - 2 + int ?n"
      using s2 by simp_all
    then have r: "r = setSelectionRange ?ta2 (int (?s - 2)) (int (?s - 2 + ?n))"
      using two by (simp only: h if_True simp_thms)
    have "?s - 2 + ?n < 2 ^ 32"
      using fit by simp
    then show ?thesis
      by (simp only: r setSelectionRange_nat text_value_setSelectionRange le_add1 simp_thms)
  qed
  show "selectionStart r = min ?s (length (text_value r)) \<and>
      selectionEnd r = min (?s + ?n) (length (text_value r))"
    if two: "take 2 line \<noteq> [SP, SP]"
  proof -
    have "int (?s + ?n) = int ?s + int ?n"
      by simp
    then have r: "r = setSelectionRange ?ta2 (int ?s) (int (?s + ?n))"
      using two by (simp only: h if_False simp_thms)
    show ?thesis
      using fit
      by (simp only: r setSelectionRange_nat text_value_setSelectionRange le_add1 simp_thms)
  qed
qed

lemma handleTab_text_value:
  assumes v: "valid_selection ta" and ne: "selectionStart ta < selectionEnd ta"
    and len: "length (text_value ta) < 2 ^ 32"
  shows "text_value (handleTab ta shift) =
     take (line_begin (text_value ta) (selectionStart ta)) (text_value ta)
       @ (if shift then dedentText else indentText)
           (take (selectionEnd ta - line_begin (text_value ta) (selectionStart ta))
              (drop (line_begin (text_value ta) (selectionStart ta)) (text_value ta)))
       @ drop (past_pair (text_value ta) (selectionEnd ta)) (text_value ta)"
proof -
  have "selectionStart ta \<le> length (text_value ta)"
    using v by (simp add: valid_selection_def)
  then have "\<not> splits_pair (text_value ta) (line_begin (text_value ta) (selectionStart ta))"
    by (rule not_splits_pair_line_begin)
  then show ?thesis
    unfolding handleTab_selection [OF v ne len]
    by (simp add: Let_def text_value_setSelectionRange text_value_insertText past_pair_id)
qed

lemma selection_setSelectionRange:
  "selectionEnd (setSelectionRange ta a b)
     = min (to_unsigned_long b) (length (text_value ta))"
  "selectionStart (setSelectionRange ta a b)
     = min (to_unsigned_long a) (min (to_unsigned_long b) (length (text_value ta)))"
  by (simp_all add: setSelectionRange_def Let_def)

text \<open>
  Claim C3, as stated, says that after Tab without shift on a non-empty selection the
  range from the beginning of the first selected line through the original end is
  replaced, that the new selection covers the inserted text starting \<open>2\<close> units after
  the original start, and that for \<^verbatim>\<open>"a\nb"\<close> with \<open>{0,3}\<close> it covers the full
  inserted block. The handler asks for the range from \<open>start + 2\<close> to \<open>start + 2\<close> plus
  the length of the inserted text; in the example that is \<open>{2,9}\<close> in a buffer of \<open>7\<close>
  units, which the platform clamps to \<open>{2,7}\<close>. The selection left is neither the
  requested range nor the inserted block \<open>{0,7}\<close>: it holds five of the seven inserted
  units. Nor is the replaced range always the one that ends at the original end: when
  the selection ends between the two units of a surrogate pair, as \<open>{0,2}\<close> does in
  \<^verbatim>\<open>"a"\<close> followed by U+1F600, the platform replaces the pair as a whole and the
  new buffer is not the indented slice followed by the rest of the old one.
\<close>

theorem tab_selection_overshoots_counterexample:
  "handleTab \<lparr>text_value = js ''a'' @ LF # js ''b'', selectionStart = 0, selectionEnd = 3\<rparr>
     False
     = \<lparr>text_value = js ''  a'' @ LF # js ''  b'', selectionStart = 2, selectionEnd = 7\<rparr> \<and>
   length (js ''  a'' @ LF # js ''  b'') = 7 \<and>
   (2::nat, 7::nat) \<noteq> (0 + 2, 0 + 2 + 7) \<and>
   (2::nat, 7::nat) \<noteq> (0, 7) \<and>
   text_value (handleTab
       \<lparr>text_value = [0x61, 0xD83D, 0xDE00], selectionStart = 0, selectionEnd = 2\<rparr> False)
     \<noteq> indentText (take 2 [0x61, 0xD83D, 0xDE00]) @ drop 2 [0x61, 0xD83D, 0xDE00]"
proof -
  let ?ta = "\<lparr>text_value = js ''a'' @ LF # js ''b'', selectionStart = 0, selectionEnd = 3\<rparr>"
  have v: "valid_selection ?ta"
    by (simp add: valid_selection_def js_def)
  have ne: "selectionStart ?ta < selectionEnd ?ta"
    by simp
  have len: "length (text_value ?ta) < 2 ^ 30"
    by (simp add: js_def)
  have w: "\<not> splits_pair (text_value ?ta) (selectionEnd ?ta)"
    by (simp add: splits_pair_def js_def)
  have b: "line_begin (text_value ?ta) (selectionStart ?ta) = 0"
    by (simp add: line_begin_def)
  have i: "indentText (js ''a'' @ LF # js ''b'') = js ''  a'' @ LF # js ''  b''"
    by (simp add: indentText_units js_def LF_def SP_def)
  have blk: "take (selectionEnd ?ta - 0) (drop 0 (text_value ?ta)) = js ''a'' @ LF # js ''b''"
    by (simp add: js_def)
  have t: "text_value (handleTab ?ta False) = js ''  a'' @ LF # js ''  b''"
    using handleTab_indent(1) [OF v ne len w] unfolding b blk i by (simp add: js_def)
  have s: "selectionStart (handleTab ?ta False) = 2"
    using handleTab_indent(2) [OF v ne len w] by simp
  have e: "selectionEnd (handleTab ?ta False) = 7"
    using handleTab_indent(3) [OF v ne len w] unfolding b blk i t by (simp add: js_def)
  have first: "handleTab ?ta False
      = \<lparr>text_value = js ''  a'' @ LF # js ''  b'', selectionStart = 2, selectionEnd = 7\<rparr>"
    using t s e by (cases "handleTab ?ta False") simp
  let ?tb = "\<lparr>text_value = [0x61, 0xD83D, 0xDE00], selectionStart = 0, selectionEnd = 2\<rparr>"
  have vb: "valid_selection ?tb"
    by (simp add: valid_selection_def)
  have neb: "selectionStart ?tb < selectionEnd ?tb"
    by simp
  have lenb: "length (text_value ?tb) < 2 ^ 32"
    by simp
  have pb: "past_pair (text_value ?tb) (selectionEnd ?tb) = 3"
    by (simp add: past_pair_def splits_pair_def is_high_surrogate_def is_low_surrogate_def)
  have bb: "line_begin (text_value ?tb) (selectionStart ?tb) = 0"
    by (simp add: line_begin_def)
  have "length (text_value (handleTab ?tb False))
      = length (indentText (take 2 [0x61, 0xD83D, 0xDE00]))"
    unfolding handleTab_text_value [OF vb neb lenb] pb bb by simp
  then have second: "text_value (handleTab ?tb False)
      \<noteq> indentText (take 2 [0x61, 0xD83D, 0xDE00]) @ drop 2 [0x61, 0xD83D, 0xDE00]"
    by (auto dest: arg_cong [where f = length])
  from first second show ?thesis
    by (simp add: js_def)
qed

text \<open>
  Claim C3, amended. For every buffer shorter than \<open>2 ^ 30\<close> units and every non-empty
  selection whose end is not between the two units of a surrogate pair, Tab without
  shift replaces the range from the beginning of the first selected line through the
  original end by that slice indented, every line with two spaces in front. The new
  selection starts \<open>2\<close> units after the original start, and ends the length of the
  inserted text after that or at the end of the new buffer, whichever comes first. For
  \<^verbatim>\<open>"a\nb"\<close> with \<open>{0,3}\<close> the buffer becomes \<^verbatim>\<open>"  a\n  b"\<close> and the selection
  \<open>{2,7}\<close>. The bound on the buffer keeps every offset handed to the platform below
  \<open>2 ^ 32\<close>.
\<close>

theorem tab_indents_selected_lines:
  "valid_selection ta \<Longrightarrow> selectionStart ta < selectionEnd ta \<Longrightarrow>
   length (text_value ta) < 2 ^ 30 \<Longrightarrow>
   \<not> splits_pair (text_value ta) (selectionEnd ta) \<Longrightarrow>
     (let v = text_value ta; s = selectionStart ta; e = selectionEnd ta;
          b = line_begin v s;
          inserted = indentText (take (e - b) (drop b v));
          r = handleTab ta False
      in text_value r = take b v @ inserted @ drop e v \<and>
         selectionStart r = s + 2 \<and>
         selectionEnd r = min (s + 2 + length inserted) (length (text_value r)))"
  unfolding Let_def by (intro conjI handleTab_indent)

theorem tab_indents_selected_lines_witness:
  "text_value (handleTab
      \<lparr>text_value = js ''a'' @ LF # js ''b'', selectionStart = 0, selectionEnd = 3\<rparr> False)
     = js ''  a'' @ LF # js ''  b'' \<and>
   selectionStart (handleTab
      \<lparr>text_value = js ''a'' @ LF # js ''b'', selectionStart = 0, selectionEnd = 3\<rparr> False)
     = 2 \<and>
   selectionEnd (handleTab
      \<lparr>text_value = js ''a'' @ LF # js ''b'', selectionStart = 0, selectionEnd = 3\<rparr> False)
     = 7"
proof -
  let ?ta = "\<lparr>text_value = js ''a'' @ LF # js ''b'', selectionStart = 0, selectionEnd = 3\<rparr>"
  have v: "valid_selection ?ta"
    by (simp add: valid_selection_def js_def)
  have ne: "selectionStart ?ta < selectionEnd ?ta"
    by simp
  have len: "length (text_value ?ta) < 2 ^ 30"
    by (simp add: js_def)
  have w: "\<not> splits_pair (text_value ?ta) (selectionEnd ?ta)"
    by (simp add: splits_pair_def js_def)
  have b: "line_begin (text_value ?ta) (selectionStart ?ta) = 0"
    by (simp add: line_begin_def)
  have i: "indentText (js ''a'' @ LF # js ''b'') = js ''  a'' @ LF # js ''  b''"
    by (simp add: indentText_units js_def LF_def SP_def)
  have blk: "take (selectionEnd ?ta - 0) (drop 0 (text_value ?ta)) = js ''a'' @ LF # js ''b''"
    by (simp add: js_def)
  from tab_indents_selected_lines [OF v ne len w]
  show ?thesis
    unfolding Let_def b blk i by (simp add: js_def)
qed

text \<open>
  Claim C2, as stated, says that after Shift+Tab on a non-empty selection the block
  from the start of the first selected line through the original end is dedented, and
  that the final selection is \<open>(start - 2, start - 2 + n)\<close> when the line of the
  selection start began with two spaces and \<open>(start, start + n)\<close> otherwise, \<open>n\<close> being
  the length of the dedented text. Three inputs show where this fails.

  The dedented text runs from the beginning of the line, so when the selection starts
  inside the line the requested end can lie beyond the new buffer. In
  \<^verbatim>\<open>"ab\n  c"\<close> with \<open>{1,6}\<close> the line \<^verbatim>\<open>"ab"\<close> does not begin with two spaces,
  the dedented text \<^verbatim>\<open>"ab\nc"\<close> has length \<open>4\<close> and is the whole new buffer; the
  selection left is \<open>{1,4}\<close>, not \<open>{1,5}\<close>.

  When the line begins with two spaces and the selection starts less than two units
  into the buffer, \<open>start - 2\<close> is negative. The platform reads it as a very large
  offset and, the end not being after the start, collapses the selection at the end
  offset: the whole of \<^verbatim>\<open>"  ab"\<close>, selected as \<open>{0,4}\<close>, becomes \<^verbatim>\<open>"ab"\<close> with
  the caret \<open>{0,0}\<close>, not a selection starting at \<open>-2\<close>.

  When the selection ends between the two units of a surrogate pair, as \<open>{0,2}\<close> does
  in \<^verbatim>\<open>"a"\<close> followed by U+1F600, the platform replaces the pair as a whole, and the
  new buffer is not the dedented slice followed by the rest of the old one.
\<close>

theorem shift_tab_selection_clamped_counterexample:
  "handleTab
     \<lparr>text_value = js ''ab'' @ LF # js ''  c'', selectionStart = 1, selectionEnd = 6\<rparr> True
     = \<lparr>text_value = js ''ab'' @ LF # js ''c'', selectionStart = 1, selectionEnd = 4\<rparr> \<and>
   \<not> startsWith (getCurrentlySelectedLine
        \<lparr>text_value = js ''ab'' @ LF # js ''  c'', selectionStart = 1, selectionEnd = 6\<rparr>)
       (js ''  '') \<and>
   dedentText (js ''ab'' @ LF # js ''  c'') = js ''ab'' @ LF # js ''c'' \<and>
   (4::nat) \<noteq> 1 + length (js ''ab'' @ LF # js ''c'') \<and>
   handleTab \<lparr>text_value = js ''  ab'', selectionStart = 0, selectionEnd = 4\<rparr> True
     = \<lparr>text_value = js ''ab'', selectionStart = 0, selectionEnd = 0\<rparr> \<and>
   startsWith (getCurrentlySelectedLine
        \<lparr>text_value = js ''  ab'', selectionStart = 0, selectionEnd = 4\<rparr>) (js ''  '') \<and>
   (0::int) \<noteq> 0 - 2 \<and>
   text_value (handleTab
       \<lparr>text_value = [0x61, 0xD83D, 0xDE00], selectionStart = 0, selectionEnd = 2\<rparr> True)
     \<noteq> dedentText (take 2 [0x61, 0xD83D, 0xDE00]) @ drop 2 [0x61, 0xD83D, 0xDE00]"
proof -
  let ?ta = "\<lparr>text_value = js ''ab'' @ LF # js ''  c'', selectionStart = 1, selectionEnd = 6\<rparr>"
  have v: "valid_selection ?ta"
    by (simp add: valid_selection_def js_def)
  have ne: "selectionStart ?ta < selectionEnd ?ta"
    by simp
  have len: "length (text_value ?ta) < 2 ^ 30"
    by (simp add: js_def)
  have w: "\<not> splits_pair (text_value ?ta) (selectionEnd ?ta)"
    by (simp add: splits_pair_def js_def)
  have b: "line_begin (text_value ?ta) (selectionStart ?ta) = 0"
    by (simp add: line_begin_def js_def LF_def)
  have l: "line_text (text_value ?ta) (selectionStart ?ta) = js ''ab''"
    by (simp add: line_text_def line_begin_def js_def LF_def)
  have cl: "getCurrentlySelectedLine ?ta = js ''ab''"
    using getCurrentlySelectedLine_eq [of ?ta] l by (simp add: js_def)
  have blk: "take (selectionEnd ?ta - 0) (drop 0 (text_value ?ta)) = js ''ab'' @ LF # js ''  c''"
    by (simp add: js_def)
  have d: "dedentText (js ''ab'' @ LF # js ''  c'') = js ''ab'' @ LF # js ''c''"
    by (simp add: dedentText_def js_def LF_def is_whitespace_def)
  have two: "take 2 (js ''ab'') \<noteq> [SP, SP]"
    by (simp add: js_def SP_def)
  have t: "text_value (handleTab ?ta True) = js ''ab'' @ LF # js ''c''"
    using handleTab_dedent(1) [OF v ne len w] unfolding b blk d by (simp add: js_def)
  have "selectionStart (handleTab ?ta True) = 1 \<and> selectionEnd (handleTab ?ta True) = 4"
    using handleTab_dedent(3) [OF v ne len w] two unfolding b l blk d t by (simp add: js_def)
  then have first: "handleTab ?ta True
      = \<lparr>text_value = js ''ab'' @ LF # js ''c'', selectionStart = 1, selectionEnd = 4\<rparr>"
    using t by (cases "handleTab ?ta True") simp
  have first': "\<not> startsWith (getCurrentlySelectedLine ?ta) (js ''  '')"
    unfolding cl by (simp add: js_def)
  have first'': "(4::nat) \<noteq> 1 + length (js ''ab'' @ LF # js ''c'')"
    by (simp add: js_def)
  let ?tb = "\<lparr>text_value = js ''  ab'', selectionStart = 0, selectionEnd = 4\<rparr>"
  have vb: "valid_selection ?tb"
    by (simp add: valid_selection_def js_def)
  have neb: "selectionStart ?tb < selectionEnd ?tb"
    by simp
  have lenb: "length (text_value ?tb) < 2 ^ 32"
    by (simp add: js_def)
  have bb: "line_begin (text_value ?tb) (selectionStart ?tb) = 0"
    by (simp add: line_begin_def)
  have lb: "line_text (text_value ?tb) (selectionStart ?tb) = js ''  ab''"
    by (simp add: line_text_def line_begin_def js_def LF_def)
  have clb: "getCurrentlySelectedLine ?tb = js ''  ab''"
    using getCurrentlySelectedLine_eq [of ?tb] lb by (simp add: js_def)
  have db: "dedentText (js ''  ab'') = js ''ab''"
    by (simp add: dedentText_def js_def LF_def is_whitespace_def)
  have twob: "take 2 (js ''  ab'') = [SP, SP]"
    by (simp add: js_def SP_def)
  have pb: "past_pair (text_value ?tb) (selectionEnd ?tb) = 4"
    by (simp add: past_pair_def splits_pair_def js_def)
  have blkb: "take (selectionEnd ?tb - 0) (drop 0 (text_value ?tb)) = js ''  ab''"
    by (simp add: js_def)
  have restb: "drop 4 (text_value ?tb) = []"
    by (simp add: js_def)
  have tb: "text_value (handleTab ?tb True) = js ''ab''"
    unfolding handleTab_text_value [OF vb neb lenb] bb pb blkb restb
    by (simp add: db)
  have hb: "handleTab ?tb True
      = setSelectionRange (insertText (?tb\<lparr>selectionStart := 0\<rparr>) (js ''ab'')) (- 2) 0"
    unfolding handleTab_selection [OF vb neb lenb] Let_def bb lb twob blkb db
    by (simp add: js_def)
  have "selectionStart (handleTab ?tb True) = 0 \<and> selectionEnd (handleTab ?tb True) = 0"
    unfolding hb selection_setSelectionRange by (simp add: to_unsigned_long_def)
  then have second: "handleTab ?tb True
      = \<lparr>text_value = js ''ab'', selectionStart = 0, selectionEnd = 0\<rparr>"
    using tb by (cases "handleTab ?tb True") simp
  have second': "startsWith (getCurrentlySelectedLine ?tb) (js ''  '')"
    unfolding clb by (simp add: js_def)
  let ?tc = "\<lparr>text_value = [0x61, 0xD83D, 0xDE00], selectionStart = 0, selectionEnd = 2\<rparr>"
  have vc: "valid_selection ?tc"
    by (simp add: valid_selection_def)
  have nec: "selectionStart ?tc < selectionEnd ?tc"
    by simp
  have lenc: "length (text_value ?tc) < 2 ^ 32"
    by simp
  have pc: "past_pair (text_value ?tc) (selectionEnd ?tc) = 3"
    by (simp add: past_pair_def splits_pair_def is_high_surrogate_def is_low_surrogate_def)
  have bc: "line_begin (text_value ?tc) (selectionStart ?tc) = 0"
    by (simp add: line_begin_def)
  have "length (text_value (handleTab ?tc True))
      = length (dedentText (take 2 [0x61, 0xD83D, 0xDE00]))"
    unfolding handleTab_text_value [OF vc nec lenc] pc bc by simp
  then have third: "text_value (handleTab ?tc True)
      \<noteq> dedentText (take 2 [0x61, 0xD83D, 0xDE00]) @ drop 2 [0x61, 0xD83D, 0xDE00]"
    by (auto dest: arg_cong [where f = length])
  have "(0::int) \<noteq> 0 - 2"
    by simp
  with first first' d first'' second second' third show ?thesis
    by (simp only: simp_thms)
qed

text \<open>
  Claim C2, amended. For every buffer shorter than \<open>2 ^ 30\<close> units and every non-empty
  selection whose end is not between the two units of a surrogate pair, Shift+Tab
  replaces the range from the beginning of the first selected line through the original
  end by that slice dedented. With \<open>n\<close> the length of the dedented text and every
  offset limited to the length of the new buffer: if the line of the original selection
  start began with two spaces and \<open>start\<close> is at least \<open>2\<close>, the final selection is
  \<open>(start - 2, start - 2 + n)\<close>; if the line did not begin with two spaces, it is
  \<open>(start, start + n)\<close>. Nothing is said of the final selection when the selection
  starts less than two units into the buffer on a line that begins with two spaces. In
  the witness the selection \<open>{2,4}\<close> of \<^verbatim>\<open>"  ab"\<close> becomes the selection \<open>{0,2}\<close> of
  \<^verbatim>\<open>"ab"\<close>.
\<close>

theorem shift_tab_dedents_selected_lines:
  "valid_selection ta \<Longrightarrow> selectionStart ta < selectionEnd ta \<Longrightarrow>
   length (text_value ta) < 2 ^ 30 \<Longrightarrow>
   \<not> splits_pair (text_value ta) (selectionEnd ta) \<Longrightarrow>
     (let v = text_value ta; s = selectionStart ta; e = selectionEnd ta;
          b = line_begin v s;
          dedented = dedentText (take (e - b) (drop b v));
          r = handleTab ta True;
          n = length (text_value r)
      in text_value r = take b v @ dedented @ drop e v \<and>
         (if take 2 (line_text v s) = [SP, SP]
          then 2 \<le> s \<longrightarrow>
                 selectionStart r = min (s - 2) n \<and>
                 selectionEnd r = min (s - 2 + length dedented) n
          else selectionStart r = min s n \<and>
               selectionEnd r = min (s + length dedented) n))"
proof -
  assume v: "valid_selection ta" and ne: "selectionStart ta < selectionEnd ta"
    and len: "length (text_value ta) < 2 ^ 30"
    and w: "\<not> splits_pair (text_value ta) (selectionEnd ta)"
  note t = handleTab_dedent(1) [OF v ne len w]
  show ?thesis
  proof (cases "take 2 (line_text (text_value ta) (selectionStart ta)) = [SP, SP]")
    case True
    then have c: "(take 2 (line_text (text_value ta) (selectionStart ta)) = [SP, SP]) = True"
      by simp
    have "2 \<le> selectionStart ta \<longrightarrow>
        selectionStart (handleTab ta True)
          = min (selectionStart ta - 2) (length (text_value (handleTab ta True))) \<and>
        selectionEnd (handleTab ta True)
          = min (selectionStart ta - 2
              + length (dedentText (take (selectionEnd ta
                    - line_begin (text_value ta) (selectionStart ta))
                  (drop (line_begin (text_value ta) (selectionStart ta)) (text_value ta)))))
              (length (text_value (handleTab ta True)))"
      using handleTab_dedent(2) [OF v ne len w True] by blast
    with t show ?thesis
      unfolding Let_def c if_True by (rule conjI)
  next
    case False
    then have c: "(take 2 (line_text (text_value ta) (selectionStart ta)) = [SP, SP]) = False"
      by simp
    from t handleTab_dedent(3) [OF v ne len w False] show ?thesis
      unfolding Let_def c if_False by (rule conjI)
  qed
qed

theorem shift_tab_dedents_selected_lines_witness:
  "text_value (handleTab
      \<lparr>text_value = js ''  ab'', selectionStart = 2, selectionEnd = 4\<rparr> True) = js ''ab'' \<and>
   selectionStart (handleTab
      \<lparr>text_value = js ''  ab'', selectionStart = 2, selectionEnd = 4\<rparr> True) = 0 \<and>
   selectionEnd (handleTab
      \<lparr>text_value = js ''  ab'', selectionStart = 2, selectionEnd = 4\<rparr> True) = 2"
proof -
  let ?ta = "\<lparr>text_value = js ''  ab'', selectionStart = 2, selectionEnd = 4\<rparr>"
  have v: "valid_selection ?ta"
    by (simp add: valid_selection_def js_def)
  have ne: "selectionStart ?ta < selectionEnd ?ta"
    by simp
  have len: "length (text_value ?ta) < 2 ^ 30"
    by (simp add: js_def)
  have w: "\<not> splits_pair (text_value ?ta) (selectionEnd ?ta)"
    by (simp add: splits_pair_def js_def)
  have b: "line_begin (text_value ?ta) (selectionStart ?ta) = 0"
    by (simp add: line_begin_def js_def LF_def)
  have l: "line_text (text_value ?ta) (selectionStart ?ta) = js ''  ab''"
    by (simp add: line_text_def line_begin_def js_def LF_def)
  have blk: "take (selectionEnd ?ta - 0) (drop 0 (text_value ?ta)) = js ''  ab''"
    by (simp add: js_def)
  have d: "dedentText (js ''  ab'') = js ''ab''"
    by (simp add: dedentText_def js_def LF_def is_whitespace_def)
  have two: "take 2 (js ''  ab'') = [SP, SP]"
    by (simp add: js_def SP_def)
  from shift_tab_dedents_selected_lines [OF v ne len w]
  show ?thesis
    unfolding Let_def b l blk d two by (simp add: js_def)
qed

section \<open>Enter\<close>

lemma match_opener_at_end_iff:
  "match_opener_at_end str \<longleftrightarrow> str \<noteq> [] \<and> is_block_opener (last str)"
  by (induction str rule: match_opener_at_end.induct) auto

lemma wantedIndentation_eq:
  "wantedIndentation line =
     takeWhile is_whitespace line
       @ (if line \<noteq> [] \<and> is_block_opener (last line) then [SP, SP] else [])"
  by (cases "takeWhile is_whitespace line")
     (simp_all add: wantedIndentation_def match_leading_ws_def match_opener_at_end_iff
        js_two_spaces Let_def)

text \<open>
  Claim C5, as stated, says that for every buffer and caret Enter inserts the line feed
  and the indentation at the caret and that the new caret is the insertion point plus
  \<open>1\<close> plus the length of the indentation. A caret between the two units of a
  surrogate pair is not a place where the platform inserts: with the value U+1F600,
  units \<open>D83D DE00\<close>, and the caret at \<open>1\<close>, the indentation is empty, the line feed
  goes after the pair and the caret ends at \<open>3\<close>, not at \<open>1 + 1 + 0\<close>.
\<close>

theorem enter_at_caret_in_surrogate_pair_counterexample:
  "valid_selection \<lparr>text_value = [0xD83D, 0xDE00], selectionStart = 1, selectionEnd = 1\<rparr> \<and>
   handleEnter \<lparr>text_value = [0xD83D, 0xDE00], selectionStart = 1, selectionEnd = 1\<rparr>
     = \<lparr>text_value = [0xD83D, 0xDE00, LF], selectionStart = 3, selectionEnd = 3\<rparr> \<and>
   [0xD83D, 0xDE00, LF] \<noteq> take 1 [0xD83D, 0xDE00] @ [LF] @ drop 1 [0xD83D, 0xDE00] \<and>
   (3::nat) \<noteq> 1 + 1 + 0"
proof -
  let ?ta = "\<lparr>text_value = [0xD83D, 0xDE00], selectionStart = 1, selectionEnd = 1\<rparr>"
  have "getCurrentlySelectedLine ?ta = line_text (text_value ?ta) (selectionStart ?ta)"
    by (rule getCurrentlySelectedLine_eq) simp
  also have "\<dots> = [0xD83D, 0xDE00]"
    by (simp add: line_text_def line_begin_def LF_def)
  finally have l: "getCurrentlySelectedLine ?ta = [0xD83D, 0xDE00]" .
  have i: "wantedIndentation [0xD83D, 0xDE00] = []"
    by (simp add: wantedIndentation_eq is_whitespace_def is_block_opener_def)
  have p: "past_pair [0xD83D, 0xDE00] (Suc 0) = 2"
    by (simp add: past_pair_def splits_pair_def is_high_surrogate_def is_low_surrogate_def)
  have "handleEnter ?ta = insertText ?ta [LF]"
    unfolding handleEnter_def Let_def l i ..
  also have "\<dots>
      = \<lparr>text_value = [0xD83D, 0xDE00, LF], selectionStart = 3, selectionEnd = 3\<rparr>"
    by (simp add: insertText_def Let_def p)
  finally have "handleEnter ?ta
      = \<lparr>text_value = [0xD83D, 0xDE00, LF], selectionStart = 3, selectionEnd = 3\<rparr>" .
  then show ?thesis
    by (simp add: valid_selection_def LF_def)
qed

text \<open>
  Claim C5, amended. For every buffer and every selection of which neither offset is
  between the two units of a surrogate pair, Enter replaces the selected range by a
  line feed followed by the indentation, where the indentation is the run of white
  space at the start of the current line (empty if there is none), with two more spaces
  when the last unit of the current line is one of \<^verbatim>\<open>{ [ : >\<close>. The new caret is
  the insertion point plus \<open>1\<close> plus the length of the indentation.
\<close>

theorem enter_inserts_newline_and_indentation:
  "valid_selection ta \<Longrightarrow>
   \<not> splits_pair (text_value ta) (selectionStart ta) \<Longrightarrow>
   \<not> splits_pair (text_value ta) (selectionEnd ta) \<Longrightarrow>
     (let line = line_text (text_value ta) (selectionStart ta);
          indentation = takeWhile is_whitespace line
            @ (if line \<noteq> [] \<and> is_block_opener (last line) then [SP, SP] else [])
      in text_value (handleEnter ta) =
           take (selectionStart ta) (text_value ta) @ [LF] @ indentation
             @ drop (selectionEnd ta) (text_value ta) \<and>
         selectionStart (handleEnter ta) = selectionStart ta + 1 + length indentation \<and>
         selectionEnd (handleEnter ta) = selectionStart ta + 1 + length indentation)"
  by (simp add: handleEnter_def Let_def insertText_plain getCurrentlySelectedLine_eq
        wantedIndentation_eq valid_selection_def)

theorem enter_inserts_newline_and_indentation_witness:
  "text_value (handleEnter
       \<lparr>text_value = js ''if (x) {'', selectionStart = 8, selectionEnd = 8\<rparr>)
     = js ''if (x) {'' @ [LF, SP, SP] \<and>
   selectionStart (handleEnter
       \<lparr>text_value = js ''if (x) {'', selectionStart = 8, selectionEnd = 8\<rparr>) = 11 \<and>
   selectionEnd (handleEnter
       \<lparr>text_value = js ''if (x) {'', selectionStart = 8, selectionEnd = 8\<rparr>) = 11"
proof -
  let ?ta = "\<lparr>text_value = js ''if (x) {'', selectionStart = 8, selectionEnd = 8\<rparr>"
  have v: "valid_selection ?ta"
    by (simp add: valid_selection_def js_def)
  have n: "\<not> splits_pair (text_value ?ta) (selectionStart ?ta)"
    "\<not> splits_pair (text_value ?ta) (selectionEnd ?ta)"
    by (simp_all add: splits_pair_def js_def)
  have l: "line_text (text_value ?ta) (selectionStart ?ta) = js ''if (x) {''"
    by (simp add: line_text_def line_begin_def js_def LF_def)
  from enter_inserts_newline_and_indentation [OF v n]
  show ?thesis
    unfolding l Let_def
    by (simp add: js_def is_whitespace_def is_block_opener_def)
qed

text \<open>
  Claim C10. The indentation that Enter inserts is computed from the whole text of the
  line holding \<open>selectionStart\<close>, and does not depend on where in that line the caret
  is. Whenever the buffer is \<open>pre @ L @ post\<close> with \<open>L\<close> a complete line and the
  caret anywhere from the start to the end of \<open>L\<close>, the inserted text is the line feed,
  the leading white space of \<open>L\<close> and, if \<open>L\<close> ends with a trigger character, two
  more spaces. So a caret before a trigger character at the end of the line still gets
  the two extra spaces, and a caret before the leading white space still gets all of
  it: in the witness the caret is at offset \<open>0\<close> of \<^verbatim>\<open>"  f {"\<close> and four
  spaces are inserted.
\<close>

theorem enter_indentation_from_whole_line:
  assumes "text_value ta = pre @ L @ post"
    and "LF \<notin> set L"
    and "pre = [] \<or> last pre = LF"
    and "post = [] \<or> hd post = LF"
    and "length pre \<le> selectionStart ta"
    and "selectionStart ta \<le> length pre + length L"
  shows "handleEnter ta =
           insertText ta
             (LF # takeWhile is_whitespace L
                @ (if L \<noteq> [] \<and> is_block_opener (last L) then [SP, SP] else []))"
proof -
  have "selectionStart ta \<le> length (text_value ta)"
    using assms by simp
  then have "getCurrentlySelectedLine ta = line_text (text_value ta) (selectionStart ta)"
    by (rule getCurrentlySelectedLine_eq)
  also have "\<dots> = L"
    using assms by (rule line_of_decomposition)
  finally show ?thesis
    by (simp add: handleEnter_def wantedIndentation_eq)
qed

theorem enter_indentation_from_whole_line_witness:
  "handleEnter \<lparr>text_value = js ''  f {'', selectionStart = 0, selectionEnd = 0\<rparr>
     = \<lparr>text_value = LF # js ''      f {'', selectionStart = 5, selectionEnd = 5\<rparr>"
proof -
  let ?ta = "\<lparr>text_value = js ''  f {'', selectionStart = 0, selectionEnd = 0\<rparr>"
  have d: "text_value ?ta = [] @ js ''  f {'' @ []"
    by simp
  have f: "LF \<notin> set (js ''  f {'')"
    by (simp add: js_def LF_def)
  have p: "past_pair (js ''  f {'') 0 = 0"
    by (simp add: past_pair_def splits_pair_def)
  from enter_indentation_from_whole_line [OF d f]
  show ?thesis
    by (simp add: insertText_def Let_def p)
      (simp add: js_def is_whitespace_def is_block_opener_def SP_def)
qed

section \<open>The closing brace\<close>

lemma handleBracketClose_snap:
  assumes v: "valid_selection ta" and len: "length (text_value ta) < 2 ^ 32"
    and c: "selectionStart ta = selectionEnd ta"
    and m: "match_only_ws2 (line_text (text_value ta) (selectionStart ta))"
    and s2: "2 \<le> selectionStart ta"
  shows "handleBracketClose ta =
           insertText (ta\<lparr>selectionStart := selectionStart ta - 2\<rparr>) (js ''}'')"
proof -
  let ?s = "selectionStart ta"
  have le: "?s \<le> length (text_value ta)"
    using v c by (simp add: valid_selection_def)
  have line: "getCurrentlySelectedLine ta = line_text (text_value ta) ?s"
    using le by (rule getCurrentlySelectedLine_eq)
  have cond: "(int ?s = int (selectionEnd ta) \<and>
      match_only_ws2 (getCurrentlySelectedLine ta)) = True"
    using c m by (simp add: line)
  have "?s < 2 ^ 32"
    using le len by simp
  then have "setSelectionRange ta (int (?s - 2)) (int ?s)
      = ta\<lparr>selectionStart := ?s - 2, selectionEnd := ?s\<rparr>"
    using le by (intro setSelectionRange_inside) simp_all
  moreover have "int (?s - 2) = int ?s - 2"
    using s2 by simp
  moreover have "ta\<lparr>selectionStart := ?s - 2, selectionEnd := ?s\<rparr>
      = ta\<lparr>selectionStart := ?s - 2\<rparr>"
    using c by simp
  ultimately have step: "setSelectionRange ta (int ?s - 2) (int (selectionEnd ta))
      = ta\<lparr>selectionStart := ?s - 2\<rparr>"
    using c by (simp only:)
  show ?thesis
    unfolding handleBracketClose_def Let_def cond if_True step by (rule refl)
qed

lemma handleBracketClose_plain:
  assumes v: "valid_selection ta"
    and n: "\<not> (selectionStart ta = selectionEnd ta \<and>
              match_only_ws2 (line_text (text_value ta) (selectionStart ta)))"
  shows "handleBracketClose ta = insertText ta (js ''}'')"
proof -
  have "selectionStart ta \<le> length (text_value ta)"
    using v by (simp add: valid_selection_def)
  then have "getCurrentlySelectedLine ta = line_text (text_value ta) (selectionStart ta)"
    by (rule getCurrentlySelectedLine_eq)
  with n show ?thesis
    by (auto simp add: handleBracketClose_def Let_def)
qed

text \<open>
  A caret on a line made of white space only is never inside a surrogate pair: the unit
  before it is a white space unit of the line, or the line feed before the line.
\<close>

lemma not_splits_pair_on_ws_line:
  assumes le: "s \<le> length v" and ws: "list_all is_whitespace (line_text v s)"
  shows "\<not> splits_pair v s"
proof
  assume sp: "splits_pair v s"
  then have pos: "0 < s" and lt: "s < length v" and hi: "is_high_surrogate (v ! (s - 1))"
    by (simp_all add: splits_pair_def)
  let ?b = "line_begin v s"
  have bs: "?b \<le> s"
    by (rule line_begin_le)
  show False
  proof (cases "?b = s")
    case True
    with line_begin_boundary [OF le] pos have "v ! (s - 1) = LF"
      by simp
    with hi LF_not_high_surrogate show False
      by simp
  next
    case False
    with bs have lts: "?b < s"
      by simp
    let ?pre = "take (s - ?b) (drop ?b v)"
    have free: "LF \<notin> set ?pre"
      using le by (rule line_begin_free)
    have "drop ?b v = ?pre @ drop (s - ?b) (drop ?b v)"
      by (rule append_take_drop_id [symmetric])
    then have "line_text v s
        = ?pre @ takeWhile (\<lambda>c. c \<noteq> LF) (drop (s - ?b) (drop ?b v))"
      unfolding line_text_def using free by (metis takeWhile_free_append)
    moreover have "length ?pre = s - ?b"
      using le bs by simp
    then have "?pre ! (s - ?b - 1) \<in> set ?pre"
      using lts by (intro nth_mem) simp
    moreover have "?pre ! (s - ?b - 1) = v ! (s - 1)"
      using lts le by simp
    ultimately have "v ! (s - 1) \<in> set (line_text v s)"
      by simp
    with ws have "is_whitespace (v ! (s - 1))"
      by (simp add: list_all_iff)
    with hi whitespace_not_high_surrogate show False
      by blast
  qed
qed

text \<open>
  Claim C6, as stated, says that for every buffer a closing brace typed at a collapsed
  caret on a line of two or more white space units first moves the selection start
  back by exactly \<open>2\<close> and then replaces that range by the brace, and that in every
  other case the brace is inserted at the unadjusted selection. Three inputs show where
  this fails.

  At a caret less than two units into the buffer there is no such offset: the handler
  asks for \<open>selectionStart - 2 < 0\<close>, the platform reads the negative number as a very
  large \<^verbatim>\<open>unsigned long\<close> and, the end not being after the start, collapses the
  selection at the end offset. In \<^verbatim>\<open>"    "\<close> with the caret at \<open>1\<close> the line matches
  \<^verbatim>\<open>^\s{2,}$\<close>, yet the brace is inserted at offset \<open>1\<close> with nothing removed, and
  the caret ends at \<open>2\<close>, not at \<open>1 - 2 + 1\<close>.

  When the offset two units back lies between the two units of a surrogate pair, the
  platform does not start the replaced range there. In U+1F600, a line feed and two
  spaces, units \<open>D83D DE00 LF SP SP\<close>, with the caret at \<open>3\<close>, the current line is the
  two spaces after the line feed; the handler asks for the range \<open>{1,3}\<close>, the pair is
  left whole, only the line feed is replaced by the brace, and the caret ends at \<open>3\<close>,
  not at \<open>3 - 2 + 1\<close>. The same holds of the unadjusted selection in every other case:
  with the value U+1F600 and the caret at \<open>1\<close> the line is not white space, and the brace
  goes after the pair, with the caret at \<open>3\<close>, not at \<open>1 + 1\<close>.
\<close>

theorem bracket_close_near_buffer_start_counterexample:
  "valid_selection \<lparr>text_value = js ''    '', selectionStart = 1, selectionEnd = 1\<rparr> \<and>
   match_only_ws2 (getCurrentlySelectedLine
      \<lparr>text_value = js ''    '', selectionStart = 1, selectionEnd = 1\<rparr>) \<and>
   handleBracketClose \<lparr>text_value = js ''    '', selectionStart = 1, selectionEnd = 1\<rparr>
     = \<lparr>text_value = js '' }   '', selectionStart = 2, selectionEnd = 2\<rparr> \<and>
   js '' }   '' = take 1 (js ''    '') @ js ''}'' @ drop 1 (js ''    '') \<and>
   js '' }   '' \<noteq> js ''}'' @ drop 1 (js ''    '') \<and>
   (2::int) \<noteq> 1 - 2 + 1 \<and>
   valid_selection
     \<lparr>text_value = [0xD83D, 0xDE00, LF, SP, SP], selectionStart = 3, selectionEnd = 3\<rparr> \<and>
   match_only_ws2 (getCurrentlySelectedLine
      \<lparr>text_value = [0xD83D, 0xDE00, LF, SP, SP], selectionStart = 3, selectionEnd = 3\<rparr>) \<and>
   handleBracketClose
      \<lparr>text_value = [0xD83D, 0xDE00, LF, SP, SP], selectionStart = 3, selectionEnd = 3\<rparr>
     = \<lparr>text_value = [0xD83D, 0xDE00] @ js ''}'' @ [SP, SP],
        selectionStart = 3, selectionEnd = 3\<rparr> \<and>
   [0xD83D, 0xDE00] @ js ''}'' @ [SP, SP]
     \<noteq> take (3 - 2) [0xD83D, 0xDE00, LF, SP, SP] @ js ''}''
         @ drop 3 [0xD83D, 0xDE00, LF, SP, SP] \<and>
   (3::nat) \<noteq> 3 - 2 + 1 \<and>
   \<not> match_only_ws2 (getCurrentlySelectedLine
      \<lparr>text_value = [0xD83D, 0xDE00], selectionStart = 1, selectionEnd = 1\<rparr>) \<and>
   handleBracketClose \<lparr>text_value = [0xD83D, 0xDE00], selectionStart = 1, selectionEnd = 1\<rparr>
     = \<lparr>text_value = [0xD83D, 0xDE00] @ js ''}'', selectionStart = 3, selectionEnd = 3\<rparr> \<and>
   [0xD83D, 0xDE00] @ js ''}''
     \<noteq> take 1 [0xD83D, 0xDE00] @ js ''}'' @ drop 1 [0xD83D, 0xDE00] \<and>
   (3::nat) \<noteq> 1 + 1"
proof -
  let ?ta = "\<lparr>text_value = js ''    '', selectionStart = 1, selectionEnd = 1\<rparr>"
  have v: "valid_selection ?ta"
    by (simp add: valid_selection_def js_def)
  have "getCurrentlySelectedLine ?ta = line_text (text_value ?ta) (selectionStart ?ta)"
    by (rule getCurrentlySelectedLine_eq) (simp add: js_def)
  also have "\<dots> = js ''    ''"
    by (simp add: line_text_def line_begin_def js_def LF_def)
  finally have l: "getCurrentlySelectedLine ?ta = js ''    ''" .
  have m: "match_only_ws2 (js ''    '')"
    by (simp add: match_only_ws2_def js_def is_whitespace_def)
  have "setSelectionRange ?ta (- 1) 1 = ?ta"
    by (simp add: setSelectionRange_def) (simp add: to_unsigned_long_def js_def)
  then have "handleBracketClose ?ta = insertText ?ta (js ''}'')"
    using m by (simp add: handleBracketClose_def l Let_def)
  also have "\<dots> = \<lparr>text_value = js '' }   '', selectionStart = 2, selectionEnd = 2\<rparr>"
    by (simp add: insertText_def Let_def past_pair_def splits_pair_def is_high_surrogate_def
          js_def)
  finally have h: "handleBracketClose ?ta
      = \<lparr>text_value = js '' }   '', selectionStart = 2, selectionEnd = 2\<rparr>" .
  have t: "js '' }   '' = take 1 (js ''    '') @ js ''}'' @ drop 1 (js ''    '')"
    "js '' }   '' \<noteq> js ''}'' @ drop 1 (js ''    '')"
    by (simp_all add: js_def)
  have i: "(2::int) \<noteq> 1 - 2 + 1"
    by simp
  let ?tb = "\<lparr>text_value = [0xD83D, 0xDE00, LF, SP, SP], selectionStart = 3, selectionEnd = 3\<rparr>"
  have vb: "valid_selection ?tb"
    by (simp add: valid_selection_def)
  have lenb: "length (text_value ?tb) < 2 ^ 32"
    by simp
  have cb: "selectionStart ?tb = selectionEnd ?tb"
    by simp
  have lb: "line_text (text_value ?tb) (selectionStart ?tb) = [SP, SP]"
    by (simp add: line_text_def line_begin_def LF_def SP_def)
  have mb: "match_only_ws2 [SP, SP]"
    by (simp add: match_only_ws2_def is_whitespace_SP)
  have "getCurrentlySelectedLine ?tb = line_text (text_value ?tb) (selectionStart ?tb)"
    by (rule getCurrentlySelectedLine_eq) simp
  then have clb: "getCurrentlySelectedLine ?tb = [SP, SP]"
    by (simp only: lb)
  have p: "past_pair [0xD83D, 0xDE00] (Suc 0) = 2"
    by (simp add: past_pair_def splits_pair_def is_high_surrogate_def is_low_surrogate_def)
  have p1: "past_pair [0xD83D, 0xDE00, LF, SP, SP] (Suc 0) = 2"
    by (simp add: past_pair_def splits_pair_def is_high_surrogate_def is_low_surrogate_def)
  have p3: "past_pair [0xD83D, 0xDE00, LF, SP, SP] 3 = 3"
    by (simp add: past_pair_def splits_pair_def is_high_surrogate_def LF_def)
  have "handleBracketClose ?tb
      = insertText (?tb\<lparr>selectionStart := selectionStart ?tb - 2\<rparr>) (js ''}'')"
    using vb lenb cb by (rule handleBracketClose_snap) (simp_all only: lb mb, simp)
  also have "\<dots> = \<lparr>text_value = [0xD83D, 0xDE00] @ js ''}'' @ [SP, SP],
      selectionStart = 3, selectionEnd = 3\<rparr>"
    by (simp add: insertText_def Let_def p1 p3 js_brace)
  finally have hb: "handleBracketClose ?tb
      = \<lparr>text_value = [0xD83D, 0xDE00] @ js ''}'' @ [SP, SP],
        selectionStart = 3, selectionEnd = 3\<rparr>" .
  have tb: "[0xD83D, 0xDE00] @ js ''}'' @ [SP, SP]
      \<noteq> take (3 - 2) [0xD83D, 0xDE00, LF, SP, SP] @ js ''}''
          @ drop 3 [0xD83D, 0xDE00, LF, SP, SP]"
    by (simp add: js_brace)
  have ib: "(3::nat) \<noteq> 3 - 2 + 1"
    by simp
  let ?tc = "\<lparr>text_value = [0xD83D, 0xDE00], selectionStart = 1, selectionEnd = 1\<rparr>"
  have vc: "valid_selection ?tc"
    by (simp add: valid_selection_def)
  have "getCurrentlySelectedLine ?tc = line_text (text_value ?tc) (selectionStart ?tc)"
    by (rule getCurrentlySelectedLine_eq) simp
  also have "\<dots> = [0xD83D, 0xDE00]"
    by (simp add: line_text_def line_begin_def LF_def)
  finally have clc: "getCurrentlySelectedLine ?tc = [0xD83D, 0xDE00]" .
  have mc: "\<not> match_only_ws2 [0xD83D, 0xDE00]"
    by (simp add: match_only_ws2_def is_whitespace_def)
  have "\<not> (selectionStart ?tc = selectionEnd ?tc \<and>
      match_only_ws2 (line_text (text_value ?tc) (selectionStart ?tc)))"
    using mc clc getCurrentlySelectedLine_eq [of ?tc] by simp
  with vc have "handleBracketClose ?tc = insertText ?tc (js ''}'')"
    by (rule handleBracketClose_plain)
  also have "\<dots>
      = \<lparr>text_value = [0xD83D, 0xDE00] @ js ''}'', selectionStart = 3, selectionEnd = 3\<rparr>"
    by (simp add: insertText_def Let_def p js_brace)
  finally have hc: "handleBracketClose ?tc
      = \<lparr>text_value = [0xD83D, 0xDE00] @ js ''}'', selectionStart = 3, selectionEnd = 3\<rparr>" .
  have tc: "[0xD83D, 0xDE00] @ js ''}''
      \<noteq> take 1 [0xD83D, 0xDE00] @ js ''}'' @ drop 1 [0xD83D, 0xDE00]"
    by (simp add: js_brace)
  have ic: "(3::nat) \<noteq> 1 + 1"
    by simp
  from v l m h t i vb clb mb hb tb ib clc mc hc tc ic show ?thesis
    by (simp only: simp_thms)
qed

text \<open>
  Claim C6, amended. For every buffer shorter than \<open>2 ^ 32\<close> units (the range of the
  offsets of the control), a closing brace typed at a collapsed caret on a current line
  made of two or more white space units only, when the caret is at least two units
  into the buffer and the offset two units back is not between the two units of a
  surrogate pair, replaces the two units before the caret by the brace, whatever the
  depth of the indentation, and leaves the caret after the brace, at the old caret
  minus \<open>2\<close> plus \<open>1\<close>. When the selection is not collapsed or the line is not of that
  form, and neither offset of the selection is between the two units of a surrogate
  pair, the brace replaces the unadjusted selection and the caret is the selection
  start plus \<open>1\<close>. The two units before the caret are taken without regard to the line:
  at the start of such a line they are the end of the line before. The witness is the
  example of the specification, \<^verbatim>\<open>"    "\<close> at \<open>{4,4}\<close>, which becomes \<^verbatim>\<open>"  }"\<close>
  with the caret at \<open>3\<close>.
\<close>

theorem bracket_close_snaps_back_two:
  "valid_selection ta \<Longrightarrow> length (text_value ta) < 2 ^ 32 \<Longrightarrow>
     (let v = text_value ta; s = selectionStart ta; e = selectionEnd ta;
          line = line_text v s; r = handleBracketClose ta
      in if s = e \<and> 2 \<le> length line \<and> list_all is_whitespace line
         then 2 \<le> s \<and> \<not> splits_pair v (s - 2) \<longrightarrow>
                text_value r = take (s - 2) v @ js ''}'' @ drop s v \<and>
                selectionStart r = s - 2 + 1 \<and> selectionEnd r = s - 2 + 1
         else \<not> splits_pair v s \<and> \<not> splits_pair v e \<longrightarrow>
                text_value r = take s v @ js ''}'' @ drop e v \<and>
                selectionStart r = s + 1 \<and> selectionEnd r = s + 1)"
proof -
  assume v: "valid_selection ta" and len: "length (text_value ta) < 2 ^ 32"
  let ?line = "line_text (text_value ta) (selectionStart ta)"
  have cond: "(selectionStart ta = selectionEnd ta \<and> 2 \<le> length ?line \<and>
        list_all is_whitespace ?line)
      = (selectionStart ta = selectionEnd ta \<and> match_only_ws2 ?line)"
    by (simp add: match_only_ws2_def)
  have ne: "js ''}'' \<noteq> []"
    by (simp add: js_brace)
  show ?thesis
  proof (cases "selectionStart ta = selectionEnd ta \<and> match_only_ws2 ?line")
    case True
    then have c: "selectionStart ta = selectionEnd ta" and m: "match_only_ws2 ?line"
      by blast+
    have "selectionStart ta \<le> length (text_value ta)"
      using v by (simp add: valid_selection_def)
    moreover have "list_all is_whitespace ?line"
      using m by (simp add: match_only_ws2_def)
    ultimately have whole: "\<not> splits_pair (text_value ta) (selectionStart ta)"
      by (rule not_splits_pair_on_ws_line)
    have res: "2 \<le> selectionStart ta \<and>
          \<not> splits_pair (text_value ta) (selectionStart ta - 2) \<longrightarrow>
        text_value (handleBracketClose ta) =
          take (selectionStart ta - 2) (text_value ta) @ js ''}''
            @ drop (selectionStart ta) (text_value ta) \<and>
        selectionStart (handleBracketClose ta) = selectionStart ta - 2 + 1 \<and>
        selectionEnd (handleBracketClose ta) = selectionStart ta - 2 + 1"
    proof (intro impI, elim conjE)
      assume s2: "2 \<le> selectionStart ta"
        and two_back: "\<not> splits_pair (text_value ta) (selectionStart ta - 2)"
      let ?t1 = "ta\<lparr>selectionStart := selectionStart ta - 2\<rparr>"
      have h: "handleBracketClose ta = insertText ?t1 (js ''}'')"
        using v len c m s2 by (rule handleBracketClose_snap)
      have "\<not> splits_pair (text_value ?t1) (selectionStart ?t1)"
        using two_back by simp
      moreover have "\<not> splits_pair (text_value ?t1) (selectionEnd ?t1)"
        using whole c by simp
      ultimately have "insertText ?t1 (js ''}'') =
          ?t1\<lparr>text_value := take (selectionStart ?t1) (text_value ?t1) @ js ''}''
                  @ drop (selectionEnd ?t1) (text_value ?t1),
              selectionStart := selectionStart ?t1 + length (js ''}''),
              selectionEnd := selectionStart ?t1 + length (js ''}'')\<rparr>"
        using ne by (rule insertText_plain)
      then show "text_value (handleBracketClose ta) =
          take (selectionStart ta - 2) (text_value ta) @ js ''}''
            @ drop (selectionStart ta) (text_value ta) \<and>
        selectionStart (handleBracketClose ta) = selectionStart ta - 2 + 1 \<and>
        selectionEnd (handleBracketClose ta) = selectionStart ta - 2 + 1"
        unfolding h using c by (simp add: js_brace)
    qed
    have T: "(selectionStart ta = selectionEnd ta \<and> match_only_ws2 ?line) = True"
      using True by blast
    show ?thesis
      unfolding Let_def cond T if_True by (rule res)
  next
    case False
    then have h: "handleBracketClose ta = insertText ta (js ''}'')"
      using v by (intro handleBracketClose_plain)
    have res: "\<not> splits_pair (text_value ta) (selectionStart ta) \<and>
          \<not> splits_pair (text_value ta) (selectionEnd ta) \<longrightarrow>
        text_value (handleBracketClose ta) =
          take (selectionStart ta) (text_value ta) @ js ''}''
            @ drop (selectionEnd ta) (text_value ta) \<and>
        selectionStart (handleBracketClose ta) = selectionStart ta + 1 \<and>
        selectionEnd (handleBracketClose ta) = selectionStart ta + 1"
      unfolding h using ne by (simp add: insertText_plain js_brace)
    have F: "(selectionStart ta = selectionEnd ta \<and> match_only_ws2 ?line) = False"
      using False by blast
    show ?thesis
      unfolding Let_def cond F if_False by (rule res)
  qed
qed

theorem bracket_close_snaps_back_two_witness:
  "text_value (handleBracketClose
      \<lparr>text_value = js ''    '', selectionStart = 4, selectionEnd = 4\<rparr>) = js ''  }'' \<and>
   selectionStart (handleBracketClose
      \<lparr>text_value = js ''    '', selectionStart = 4, selectionEnd = 4\<rparr>) = 3 \<and>
   selectionEnd (handleBracketClose
      \<lparr>text_value = js ''    '', selectionStart = 4, selectionEnd = 4\<rparr>) = 3"
proof -
  let ?ta = "\<lparr>text_value = js ''    '', selectionStart = 4, selectionEnd = 4\<rparr>"
  have v: "valid_selection ?ta"
    by (simp add: valid_selection_def js_def)
  have len: "length (text_value ?ta) < 2 ^ 32"
    by (simp add: js_def)
  have l: "line_text (text_value ?ta) (selectionStart ?ta) = js ''    ''"
    by (simp add: line_text_def line_begin_def js_def LF_def)
  have w: "list_all is_whitespace (js ''    '')"
    by (simp add: js_def is_whitespace_def)
  have n: "\<not> splits_pair (js ''    '') 2"
    by (simp add: splits_pair_def is_high_surrogate_def js_def)
  from bracket_close_snaps_back_two [OF v len]
  show ?thesis
    unfolding Let_def l using w n by (simp add: js_def)
qed

section \<open>The selection stays inside the buffer\<close>

lemma valid_setSelectionRange: "valid_selection (setSelectionRange ta a b)"
  by (simp add: valid_selection_def setSelectionRange_def Let_def min_def)

lemma valid_insertText:
  assumes "valid_selection ta"
  shows "valid_selection (insertText ta txt)"
proof -
  let ?v = "text_value ta"
  let ?s = "past_pair ?v (selectionStart ta)" and ?e = "past_pair ?v (selectionEnd ta)"
  have "?s \<le> ?e"
    using assms by (intro past_pair_mono) (simp add: valid_selection_def)
  moreover have "?e \<le> length ?v"
    using assms by (intro past_pair_le_length) (simp add: valid_selection_def)
  ultimately have "length (take ?s ?v @ txt @ drop ?e ?v) = ?s + length txt + (length ?v - ?e)"
    by simp
  then show ?thesis
    by (simp add: valid_selection_def insertText_def Let_def)
qed

lemma valid_handleTab: "valid_selection ta \<Longrightarrow> valid_selection (handleTab ta shift)"
  by (simp add: handleTab_def Let_def valid_setSelectionRange valid_insertText)

lemma valid_handleEnter: "valid_selection ta \<Longrightarrow> valid_selection (handleEnter ta)"
  by (simp add: handleEnter_def Let_def valid_insertText)

lemma valid_handleBracketClose:
  "valid_selection ta \<Longrightarrow> valid_selection (handleBracketClose ta)"
  by (simp add: handleBracketClose_def Let_def valid_setSelectionRange valid_insertText)

text \<open>
  Claim C1. For every buffer and every valid selection
  (\<open>0 \<le> start \<le> end \<le> length buffer\<close>), the control left by Tab (with or without
  shift), by Enter and by the closing brace has a selection with
  \<open>0 \<le> start \<le> end \<le> length\<close> of the new buffer. The offsets are natural numbers, so
  the lower bound is in the type. Each handler ends either with an insertion, which
  leaves a collapsed caret inside the new value, or with \<^verbatim>\<open>setSelectionRange\<close>,
  which the platform clamps to the value. The range a handler asks for can lie outside
  the new buffer, as the examples of the sections on Tab and on the closing brace show;
  the selection that the control holds afterwards cannot. In the witness Tab on the
  selection \<open>{1,2}\<close> of \<^verbatim>\<open>"ab"\<close> asks for \<open>{3,7}\<close> in a buffer of \<open>4\<close> units.
\<close>

theorem selection_valid_after_command:
  "valid_selection ta \<Longrightarrow>
     valid_selection (handleTab ta shift) \<and>
     valid_selection (handleEnter ta) \<and>
     valid_selection (handleBracketClose ta) \<and>
     valid_selection (handleKeyDown event ta)"
  by (simp add: handleKeyDown_def valid_handleTab valid_handleEnter valid_handleBracketClose)

theorem selection_valid_after_command_witness:
  "valid_selection \<lparr>text_value = js ''ab'', selectionStart = 1, selectionEnd = 2\<rparr> \<and>
   valid_selection
     (handleTab \<lparr>text_value = js ''ab'', selectionStart = 1, selectionEnd = 2\<rparr> False) \<and>
   valid_selection
     (handleEnter \<lparr>text_value = js ''ab'', selectionStart = 1, selectionEnd = 2\<rparr>) \<and>
   valid_selection
     (handleBracketClose \<lparr>text_value = js ''ab'', selectionStart = 1, selectionEnd = 2\<rparr>) \<and>
   valid_selection
     (handleKeyDown \<lparr>key = ''Tab'', shiftKey = True\<rparr>
        \<lparr>text_value = js ''ab'', selectionStart = 1, selectionEnd = 2\<rparr>)"
proof -
  have h: "valid_selection \<lparr>text_value = js ''ab'', selectionStart = 1, selectionEnd = 2\<rparr>"
    by (simp add: valid_selection_def js_def)
  from selection_valid_after_command [OF h, of False "\<lparr>key = ''Tab'', shiftKey = True\<rparr>"] h
  show ?thesis by blast
qed

end
